theory Spec2Isabelle
  imports Main "HOL-Library.Sublist" "HOL-Library.AList"
begin

section \<open>Python values used by app.py\<close>

text \<open>
  Integers are Python's unbounded \<open>int\<close>; text is \<open>string\<close>, restricted to ASCII.
  A CSV file is the list of its rows, a row the list of its cells; every cell is text,
  as \<open>csv.reader\<close> returns it. What \<open>csv.writer\<close> writes for an integer is
  \<open>str\<close> of it, the empty cell for \<open>None\<close>.
\<close>

datatype exn = IndexError | ValueError | AttributeError

type_synonym row = "string list"
type_synonym csv = "row list"

definition digit_chars :: string where
  "digit_chars = ''0123456789''"

fun digits :: "nat \<Rightarrow> string" where
  "digits n = (if n < 10 then [digit_chars ! n] else digits (n div 10) @ [digit_chars ! (n mod 10)])"

declare digits.simps [simp del]

definition str_int :: "int \<Rightarrow> string" where
  \<comment> \<open>\<open>str(n)\<close> for an integer\<close>
  "str_int i = (if i < 0 then CHR ''-'' # digits (nat (- i)) else digits (nat i))"

definition digit_val :: "char \<Rightarrow> nat option" where
  "digit_val c = map_of (zip digit_chars [0, 1, 2, 3, 4, 5, 6, 7, 8, 9]) c"

definition is_space :: "char \<Rightarrow> bool" where
  \<comment> \<open>the ASCII characters that \<open>int()\<close> strips: tab, LF, VT, FF, CR, FS, GS, RS, US, space\<close>
  "is_space c = (c \<in> set [CHR 0x09, CHR 0x0A, CHR 0x0B, CHR 0x0C, CHR 0x0D,
                           CHR 0x1C, CHR 0x1D, CHR 0x1E, CHR 0x1F, CHR 0x20])"

definition strip :: "string \<Rightarrow> string" where
  "strip s = rev (dropWhile is_space (rev (dropWhile is_space s)))"

fun parse_digits :: "nat \<Rightarrow> string \<Rightarrow> nat option" where
  \<comment> \<open>the rest of a decimal literal after a digit: digits, single underscores between them\<close>
  "parse_digits acc [] = Some acc"
| "parse_digits acc (c # cs) =
     (if c = CHR ''_'' then
        (case cs of
           [] \<Rightarrow> None
         | d # ds \<Rightarrow> (case digit_val d of
                        None \<Rightarrow> None
                      | Some v \<Rightarrow> parse_digits (acc * 10 + v) ds))
      else (case digit_val c of
              None \<Rightarrow> None
            | Some v \<Rightarrow> parse_digits (acc * 10 + v) cs))"

definition parse_nat :: "string \<Rightarrow> nat option" where
  "parse_nat s =
     (case s of
        [] \<Rightarrow> None
      | c # cs \<Rightarrow> (case digit_val c of None \<Rightarrow> None | Some v \<Rightarrow> parse_digits v cs))"

definition py_int :: "string \<Rightarrow> int option" where
  \<comment> \<open>\<open>int(s)\<close> for text; \<open>None\<close> is the \<open>ValueError\<close>\<close>
  "py_int s =
     (case strip s of
        [] \<Rightarrow> None
      | c # cs \<Rightarrow>
          if c = CHR ''-'' then map_option (\<lambda>n. - int n) (parse_nat cs)
          else if c = CHR ''+'' then map_option int (parse_nat cs)
          else map_option int (parse_nat (c # cs)))"

definition py_index :: "'a list \<Rightarrow> int \<Rightarrow> 'a option" where
  \<comment> \<open>\<open>xs[i]\<close>: a negative index counts from the end; \<open>None\<close> is the \<open>IndexError\<close>\<close>
  "py_index xs i =
     (let n = int (length xs); j = (if i < 0 then n + i else i)
      in if 0 \<le> j \<and> j < n then Some (xs ! nat j) else None)"

fun index_opt :: "'a list \<Rightarrow> 'a \<Rightarrow> nat option" where
  \<comment> \<open>\<open>xs.index(x)\<close>; \<open>None\<close> when \<open>x not in xs\<close>\<close>
  "index_opt [] x = None"
| "index_opt (y # ys) x = (if y = x then Some 0 else map_option Suc (index_opt ys x))"

definition lower_char :: "char \<Rightarrow> char" where
  "lower_char c =
     (case map_of (zip ''ABCDEFGHIJKLMNOPQRSTUVWXYZ'' ''abcdefghijklmnopqrstuvwxyz'') c of
        None \<Rightarrow> c | Some d \<Rightarrow> d)"

definition lower :: "string \<Rightarrow> string" where
  "lower s = map lower_char s"

definition endswith :: "string \<Rightarrow> string \<Rightarrow> bool" where
  "endswith s suf = suffix suf s"

definition startswith :: "string \<Rightarrow> string \<Rightarrow> bool" where
  "startswith s pre = prefix pre s"

definition cell_of :: "string option \<Rightarrow> string" where
  \<comment> \<open>the cell written for a JSON string or \<open>null\<close>\<close>
  "cell_of v = (case v of None \<Rightarrow> [] | Some s \<Rightarrow> s)"

section \<open>The counterbalancing tables\<close>

definition CONDITION_ORDER_SEQUENCES :: "int list list" where
  "CONDITION_ORDER_SEQUENCES =
     [[0, 1, 2, 3, 4],
      [1, 2, 3, 4, 0],
      [2, 3, 4, 0, 1],
      [3, 4, 0, 1, 2],
      [4, 0, 1, 2, 3]]"

definition TRIP_ORDER_SEQUENCES :: "int list list" where
  "TRIP_ORDER_SEQUENCES =
     [[0, 1, 2, 3, 4, 5, 6, 7, 8, 9],
      [4, 7, 1, 9, 2, 0, 5, 8, 3, 6],
      [8, 2, 5, 0, 6, 9, 1, 4, 7, 3],
      [3, 6, 9, 1, 8, 4, 0, 2, 5, 7],
      [7, 0, 4, 8, 1, 3, 9, 6, 2, 5],
      [2, 9, 6, 3, 5, 7, 4, 0, 1, 8],
      [5, 3, 0, 7, 9, 1, 8, 2, 6, 4],
      [9, 5, 8, 2, 0, 6, 3, 1, 4, 7],
      [1, 8, 3, 6, 7, 2, 0, 9, 5, 4],
      [6, 4, 7, 5, 3, 8, 2, 9, 0, 1]]"

text \<open>The two tables as the specification prints them, to be compared with the code's.\<close>

definition ConditionOrderTable :: "nat \<Rightarrow> nat \<Rightarrow> int" where
  "ConditionOrderTable r k =
     [[0, 1, 2, 3, 4], [1, 2, 3, 4, 0], [2, 3, 4, 0, 1], [3, 4, 0, 1, 2], [4, 0, 1, 2, 3]] ! r ! k"

definition TrialOrderTable :: "nat \<Rightarrow> nat \<Rightarrow> int" where
  "TrialOrderTable r k =
     [[0, 1, 2, 3, 4, 5, 6, 7, 8, 9], [4, 7, 1, 9, 2, 0, 5, 8, 3, 6],
      [8, 2, 5, 0, 6, 9, 1, 4, 7, 3], [3, 6, 9, 1, 8, 4, 0, 2, 5, 7],
      [7, 0, 4, 8, 1, 3, 9, 6, 2, 5], [2, 9, 6, 3, 5, 7, 4, 0, 1, 8],
      [5, 3, 0, 7, 9, 1, 8, 2, 6, 4], [9, 5, 8, 2, 0, 6, 3, 1, 4, 7],
      [1, 8, 3, 6, 7, 2, 0, 9, 5, 4], [6, 4, 7, 5, 3, 8, 2, 9, 0, 1]] ! r ! k"

section \<open>Durable state\<close>

text \<open>
  Everything the program knows is in files. The state holds the assignment ledger
  (\<open>participant_assignments.csv\<close>, \<open>None\<close> while the file does not exist), the files of
  \<open>participant_logs/\<close> and the files of \<open>event_logs/\<close>, each directory as an association
  list from file name to content. The three kinds of file in \<open>participant_logs/\<close> have
  names that end differently (\<open>.csv\<close>, \<open>_first_ride_switches.json\<close>,
  \<open>_reflection_<n>.json\<close>), so they are kept in three lists keyed by the file name.
  File operations are taken to succeed; the clock is the argument \<open>now\<close>.
\<close>

record switch_data =
  sw_participant_id :: string
  sw_overall_trip_number :: int
  sw_condition :: int
  sw_trip_within_condition :: int
  sw_trip_id :: int
  sw_choice :: string
  sw_timestamp :: string

datatype reflection =
    WalkingOnly "string option"
  | SwitchBased "string option" "(string \<times> int) list option"

datatype event_data = EText string | EWalkingReason "string option"

record event =
  ev_participant :: string
  ev_overall_trip_number :: string
  ev_condition :: string
  ev_timestamp :: string
  ev_type :: string
  ev_trip_id :: string
  ev_data :: event_data

record state =
  assignments_file :: "csv option"
  trip_logs :: "(string \<times> csv) list"
  switch_files :: "(string \<times> (string \<times> switch_data) list) list"
  reflection_files :: "(string \<times> reflection) list"
  event_logs :: "(string \<times> event list) list"

definition initial_state :: state where
  "initial_state = \<lparr>assignments_file = None, trip_logs = [], switch_files = [],
                     reflection_files = [], event_logs = []\<rparr>"

definition log_filename :: "string \<Rightarrow> string" where
  "log_filename participant_id = participant_id @ ''.csv''"

definition switch_filename :: "string \<Rightarrow> string" where
  "switch_filename participant_id = participant_id @ ''_first_ride_switches.json''"

definition reflection_filename :: "string \<Rightarrow> int \<Rightarrow> string" where
  "reflection_filename participant_id condition =
     participant_id @ ''_reflection_'' @ str_int condition @ ''.json''"

definition event_log_filename :: "string \<Rightarrow> string" where
  "event_log_filename participant_id = participant_id @ ''_events.csv''"

definition listdir_logs :: "state \<Rightarrow> string list" where
  \<comment> \<open>\<open>os.listdir(LOGS_DIR)\<close>\<close>
  "listdir_logs st =
     map fst (trip_logs st) @ map fst (switch_files st) @ map fst (reflection_files st)"

definition participant_log_files :: "state \<Rightarrow> string \<Rightarrow> string list" where
  \<comment> \<open>\<open>[f for f in os.listdir(LOGS_DIR) if f.startswith(f"{participant_id}.csv")]\<close>\<close>
  "participant_log_files st participant_id =
     filter (\<lambda>f. startswith f (participant_id @ ''.csv'')) (listdir_logs st)"

section \<open>Assignment\<close>

definition assignments_header :: row where
  "assignments_header = [''participant_id'', ''condition_order_idx'', ''trip_order_idx'', ''timestamp'']"

definition get_next_assignment :: "state \<Rightarrow> (int \<times> int) \<times> state" where
  "get_next_assignment st =
     (let st1 = (if assignments_file st = None
                 then st\<lparr>assignments_file := Some [assignments_header]\<rparr> else st);
          participant_count =
            (case assignments_file st1 of None \<Rightarrow> 0 | Some rows \<Rightarrow> int (length (tl rows)))
      in ((participant_count mod 5, participant_count mod 10), st1))"

fun find_assignment :: "csv \<Rightarrow> string \<Rightarrow> exn + (int \<times> int) option" where
  "find_assignment [] participant_id = Inr None"
| "find_assignment (row # rows) participant_id =
     (if length row \<ge> 3 \<and> row ! 0 = participant_id then
        (case py_int (row ! 1) of
           None \<Rightarrow> Inl ValueError
         | Some condition_order_idx \<Rightarrow>
             (case py_int (row ! 2) of
                None \<Rightarrow> Inl ValueError
              | Some trip_order_idx \<Rightarrow> Inr (Some (condition_order_idx, trip_order_idx))))
      else find_assignment rows participant_id)"

definition get_participant_assignment :: "state \<Rightarrow> string \<Rightarrow> exn + (int \<times> int) option" where
  "get_participant_assignment st participant_id =
     (case assignments_file st of
        None \<Rightarrow> Inr None
      | Some rows \<Rightarrow> find_assignment (tl rows) participant_id)"

definition get_condition_for_trip :: "state \<Rightarrow> string \<Rightarrow> int \<Rightarrow> exn + int option" where
  "get_condition_for_trip st participant_id overall_trip_number =
     (case get_participant_assignment st participant_id of
        Inl e \<Rightarrow> Inl e
      | Inr None \<Rightarrow> Inr None
      | Inr (Some (condition_order_idx, _)) \<Rightarrow>
          (case py_index CONDITION_ORDER_SEQUENCES condition_order_idx of
             None \<Rightarrow> Inl IndexError
           | Some condition_sequence \<Rightarrow>
               (case py_index condition_sequence (overall_trip_number div 10) of
                  None \<Rightarrow> Inl IndexError
                | Some c \<Rightarrow> Inr (Some c))))"

definition get_trip_id_for_trip :: "state \<Rightarrow> string \<Rightarrow> int \<Rightarrow> exn + int option" where
  "get_trip_id_for_trip st participant_id overall_trip_number =
     (case get_participant_assignment st participant_id of
        Inl e \<Rightarrow> Inl e
      | Inr None \<Rightarrow> Inr None
      | Inr (Some (_, trip_order_idx)) \<Rightarrow>
          (let condition_block = overall_trip_number div 10;
               effective_trip_order_idx =
                 (trip_order_idx + condition_block) mod int (length TRIP_ORDER_SEQUENCES)
           in case py_index TRIP_ORDER_SEQUENCES effective_trip_order_idx of
                None \<Rightarrow> Inl IndexError
              | Some trip_sequence \<Rightarrow>
                  (case py_index trip_sequence (overall_trip_number mod 10) of
                     None \<Rightarrow> Inl IndexError
                   | Some t \<Rightarrow> Inr (Some t))))"

definition log_assignment :: "string \<Rightarrow> int \<Rightarrow> int \<Rightarrow> string \<Rightarrow> state \<Rightarrow> state" where
  "log_assignment participant_id condition_order_idx trip_order_idx now st =
     st\<lparr>assignments_file :=
          Some ((case assignments_file st of None \<Rightarrow> [] | Some rows \<Rightarrow> rows)
                @ [[participant_id, str_int condition_order_idx, str_int trip_order_idx, now]])\<rparr>"

definition participant_log_header :: row where
  "participant_log_header =
     [''ProlificID'', ''overall_trip_number'', ''condition'', ''trip_within_condition'',
      ''timestamp'', ''trip_id'', ''choice'', ''trip_reflection_rationale'',
      ''trip_likert_credit_lost'', ''trip_likert_impact_comparison'',
      ''walking_reflection_walking_reason'']"

definition create_participant_log :: "string \<Rightarrow> state \<Rightarrow> state" where
  "create_participant_log participant_id st =
     (if map_of (trip_logs st) (log_filename participant_id) = None
      then st\<lparr>trip_logs := AList.update (log_filename participant_id) [participant_log_header]
                               (trip_logs st)\<rparr>
      else st)"

text \<open>
  The diagnostic event log: one list of entries per file, the constant header row left
  implicit. A new file starts with the assignment entry.
\<close>

definition create_event_log :: "string \<Rightarrow> string \<Rightarrow> state \<Rightarrow> state" where
  "create_event_log participant_id now st =
     (if map_of (event_logs st) (event_log_filename participant_id) = None
      then st\<lparr>event_logs := AList.update (event_log_filename participant_id)
                 [\<lparr>ev_participant = participant_id, ev_overall_trip_number = [],
                   ev_condition = [], ev_timestamp = now, ev_type = ''assignment'',
                   ev_trip_id = [], ev_data = EText ''participant_assigned''\<rparr>]
                 (event_logs st)\<rparr>
      else st)"

definition log_participant_event ::
  "string \<Rightarrow> string \<Rightarrow> string \<Rightarrow> string \<Rightarrow> event_data \<Rightarrow> string \<Rightarrow> string \<Rightarrow> state \<Rightarrow> state" where
  "log_participant_event participant_id overall_trip_number condition event_type data trip_id now st =
     (let st1 = (if map_of (event_logs st) (event_log_filename participant_id) = None
                 then create_event_log participant_id now st else st);
          entries = (case map_of (event_logs st1) (event_log_filename participant_id) of
                       None \<Rightarrow> [] | Some es \<Rightarrow> es)
      in st1\<lparr>event_logs := AList.update (event_log_filename participant_id)
                (entries @ [\<lparr>ev_participant = participant_id,
                             ev_overall_trip_number = overall_trip_number,
                             ev_condition = condition, ev_timestamp = now,
                             ev_type = event_type, ev_trip_id = trip_id, ev_data = data\<rparr>])
                (event_logs st1)\<rparr>)"

section \<open>Recording trial choices\<close>

definition get_trip_reflection_data :: "state \<Rightarrow> string \<Rightarrow> int \<Rightarrow> reflection option" where
  "get_trip_reflection_data st participant_id condition =
     map_of (reflection_files st) (reflection_filename participant_id condition)"

definition track_first_ride_switch ::
  "string \<Rightarrow> int \<Rightarrow> int \<Rightarrow> int \<Rightarrow> string \<Rightarrow> string \<Rightarrow> state \<Rightarrow> state" where
  "track_first_ride_switch participant_id overall_trip_number condition trip_id choice now st =
     (if choice \<noteq> ''walking'' then
        (let switches = (case map_of (switch_files st) (switch_filename participant_id) of
                           None \<Rightarrow> [] | Some d \<Rightarrow> d);
             condition_key = ''condition_'' @ str_int condition
         in if map_of switches condition_key = None then
              st\<lparr>switch_files :=
                   AList.update (switch_filename participant_id)
                     (AList.update condition_key
                        \<lparr>sw_participant_id = participant_id,
                         sw_overall_trip_number = overall_trip_number,
                         sw_condition = condition,
                         sw_trip_within_condition = overall_trip_number mod 10,
                         sw_trip_id = trip_id,
                         sw_choice = choice,
                         sw_timestamp = now\<rparr> switches)
                     (switch_files st)\<rparr>
            else st)
      else st)"

definition overall_column :: "csv \<Rightarrow> nat" where
  \<comment> \<open>\<open>header.index('overall_trip_number') if header and 'overall_trip_number' in header else 1\<close>\<close>
  "overall_column rows =
     (case rows of
        [] \<Rightarrow> 1
      | header # _ \<Rightarrow> (case index_opt header ''overall_trip_number'' of None \<Rightarrow> 1 | Some i \<Rightarrow> i))"

definition reflection_cells :: "reflection option \<Rightarrow> exn + row" where
  \<comment> \<open>the four reflection columns of a new row; \<open>.get\<close> on a \<open>null\<close> dictionary raises\<close>
  "reflection_cells trip_reflection_data =
     (case trip_reflection_data of
        None \<Rightarrow> Inr [[], [], [], []]
      | Some (WalkingOnly walking_reason) \<Rightarrow> Inr [[], [], [], cell_of walking_reason]
      | Some (SwitchBased rationale None) \<Rightarrow> Inl AttributeError
      | Some (SwitchBased rationale (Some trip_likert)) \<Rightarrow>
          Inr [cell_of rationale,
               cell_of (map_option str_int (map_of trip_likert ''credit.lost'')),
               cell_of (map_option str_int (map_of trip_likert ''impact.comparison'')),
               []])"

definition log_trip_choice ::
  "string \<Rightarrow> int \<Rightarrow> int \<Rightarrow> int \<Rightarrow> int \<Rightarrow> string \<Rightarrow> string \<Rightarrow> state \<Rightarrow> bool \<times> state" where
  "log_trip_choice participant_id overall_trip_number condition trip_within_condition trip_id
       choice now st =
     (case map_of (trip_logs st) (log_filename participant_id) of
        None \<Rightarrow>
          (True, track_first_ride_switch participant_id overall_trip_number condition trip_id
                   choice now st)
      | Some rows \<Rightarrow>
          (let overall_idx = overall_column rows in
           if \<exists>row \<in> set (tl rows).
                length row > overall_idx \<and> row ! overall_idx = str_int overall_trip_number
           then (True, track_first_ride_switch participant_id overall_trip_number condition
                         trip_id choice now st)
           else
             (case reflection_cells (get_trip_reflection_data st participant_id condition) of
                Inl e \<Rightarrow> (False, st)
              | Inr cells \<Rightarrow>
                  (let row_data =
                         [participant_id, str_int overall_trip_number, str_int condition,
                          str_int trip_within_condition, now, str_int trip_id, choice] @ cells;
                       st1 = st\<lparr>trip_logs := AList.update (log_filename participant_id)
                                                (rows @ [row_data]) (trip_logs st)\<rparr>
                   in (True, track_first_ride_switch participant_id overall_trip_number
                               condition trip_id choice now st1)))))"

section \<open>Merging a reflection into the trial log\<close>

fun set_cells :: "row \<Rightarrow> (nat \<times> string) list \<Rightarrow> row" where
  \<comment> \<open>\<open>row[i] = v\<close> for each pair in turn; the first index out of range ends the \<open>try\<close> body\<close>
  "set_cells row [] = row"
| "set_cells row ((i, v) # rest) = (if i < length row then set_cells (row[i := v]) rest else row)"

definition update_row :: "nat \<Rightarrow> nat \<Rightarrow> nat \<Rightarrow> int \<Rightarrow> reflection option \<Rightarrow> row \<Rightarrow> row" where
  "update_row condition_col trip_reflection_start walking_reflection_start condition
       trip_reflection_data row =
     (if length row > condition_col then
        (case py_int (row ! condition_col) of
           None \<Rightarrow> row
         | Some c \<Rightarrow>
             if c = condition then
               (case trip_reflection_data of
                  None \<Rightarrow> row
                | Some (WalkingOnly walking_reason) \<Rightarrow>
                    set_cells row
                      [(trip_reflection_start, []),
                       (trip_reflection_start + 1, []),
                       (trip_reflection_start + 2, []),
                       (walking_reflection_start, cell_of walking_reason)]
                | Some (SwitchBased rationale None) \<Rightarrow>
                    \<comment> \<open>the rationale is stored, then \<open>.get\<close> on \<open>null\<close> raises\<close>
                    set_cells row [(trip_reflection_start, cell_of rationale)]
                | Some (SwitchBased rationale (Some trip_likert)) \<Rightarrow>
                    set_cells row
                      [(trip_reflection_start, cell_of rationale),
                       (trip_reflection_start + 1,
                          cell_of (map_option str_int (map_of trip_likert ''credit.lost''))),
                       (trip_reflection_start + 2,
                          cell_of (map_option str_int (map_of trip_likert ''impact.comparison''))),
                       (walking_reflection_start, [])])
             else row)
      else row)"

definition update_csv_with_reflection_data :: "string \<Rightarrow> int \<Rightarrow> state \<Rightarrow> state" where
  "update_csv_with_reflection_data participant_id condition st =
     (case map_of (trip_logs st) (log_filename participant_id) of
        None \<Rightarrow> st
      | Some rows \<Rightarrow>
          (let trip_reflection_data = get_trip_reflection_data st participant_id condition in
           if length rows \<le> 1 then st
           else
             (let header = hd rows in
              case (index_opt header ''condition'',
                    index_opt header ''trip_reflection_rationale'',
                    index_opt header ''walking_reflection_walking_reason'') of
                (Some condition_col, Some trip_reflection_start, Some walking_reflection_start) \<Rightarrow>
                  st\<lparr>trip_logs :=
                       AList.update (log_filename participant_id)
                         (header # map (update_row condition_col trip_reflection_start
                                          walking_reflection_start condition trip_reflection_data)
                                       (tl rows))
                         (trip_logs st)\<rparr>
              | _ \<Rightarrow> st)))"

record reflection_payload =
  rp_reflection_type :: "string option"
  rp_walking_reason :: "string option"
  rp_rationale :: "string option"
  rp_trip_likert_responses :: "(string \<times> int) list option"

datatype route =
    TripRoute string int
  | TripReflectionRoute string int
  | CompleteRoute string
  | BlockIntroRoute string int int

datatype page =
    AssignedPage string
  | WelcomeBackPage string
  | TripPage int int int
  | WalkingOnlyPage int route
  | SwitchBasedPage int switch_data

datatype response =
    NotFound string
  | ServerError exn
  | Redirect route
  | Page page
  | Json string
  | JsonError nat string

definition complete_reflection ::
  "string \<Rightarrow> int \<Rightarrow> reflection_payload option \<Rightarrow> string \<Rightarrow> state \<Rightarrow> response \<times> state" where
  "complete_reflection participant_id condition data now st =
     (let (reflection_data, st1) =
            (case data of
               None \<Rightarrow> (SwitchBased None None, st)
             | Some d \<Rightarrow>
                 if rp_reflection_type d = Some ''walking_only'' then
                   (WalkingOnly (rp_walking_reason d),
                    log_participant_event participant_id [] (str_int condition)
                      ''walking_only_reflection'' (EWalkingReason (rp_walking_reason d)) [] now st)
                 else (SwitchBased (rp_rationale d) (rp_trip_likert_responses d), st));
          st2 = st1\<lparr>reflection_files :=
                      AList.update (reflection_filename participant_id condition) reflection_data
                        (reflection_files st1)\<rparr>
      in (Json ''reflection_completed'',
          update_csv_with_reflection_data participant_id condition st2))"

section \<open>Request handlers\<close>

definition assign_participant :: "string \<Rightarrow> string \<Rightarrow> state \<Rightarrow> response \<times> state" where
  "assign_participant participant_id now st =
     (if endswith participant_id ''.php'' \<or>
         endswith participant_id ''.ico'' \<or>
         endswith participant_id ''.txt'' \<or>
         endswith participant_id ''.xml'' \<or>
         endswith participant_id ''.js'' \<or>
         endswith participant_id ''.css'' \<or>
         endswith participant_id ''.html'' \<or>
         endswith participant_id ''.jsp'' \<or>
         endswith participant_id ''.asp'' \<or>
         CHR ''/'' \<in> set participant_id \<or>
         lower participant_id \<in> set [''favicon.ico'', ''robots.txt'', ''sitemap.xml'', ''wp-config.php'']
      then (NotFound ''Not found'', st)
      else if participant_log_files st participant_id \<noteq> [] then
        (Page (WelcomeBackPage participant_id),
         log_participant_event participant_id [] [] ''return_visit'' (EText []) [] now st)
      else
        (let ((condition_order_idx, trip_order_idx), st1) = get_next_assignment st;
             st2 = log_assignment participant_id condition_order_idx trip_order_idx now st1;
             st3 = create_participant_log participant_id st2;
             st4 = create_event_log participant_id now st3
         in (Page (AssignedPage participant_id), st4)))"

definition max_overall :: "csv \<Rightarrow> int" where
  \<comment> \<open>the scan for the highest recorded trial number, as show_trip, check_switch and
      trip_reflection each write it; a cell that is missing or is no integer is skipped\<close>
  "max_overall rows =
     (let overall_idx = overall_column rows
      in foldl (\<lambda>m row. if length row > overall_idx
                         then (case py_int (row ! overall_idx) of None \<Rightarrow> m | Some v \<Rightarrow> max m v)
                         else m)
               (- 1) (tl rows))"

definition show_trip :: "'trip list \<Rightarrow> string \<Rightarrow> int \<Rightarrow> string \<Rightarrow> state \<Rightarrow> response \<times> state" where
  "show_trip TRIPS_DATA participant_id overall_trip_number now st =
     (if participant_log_files st participant_id = [] then
        (NotFound ''Participant not found. Please start from the beginning.'', st)
      else
        (case (case map_of (trip_logs st) (log_filename participant_id) of
                 None \<Rightarrow> None
               | Some rows \<Rightarrow>
                   (let next_allowed = max_overall rows + 1
                    in if overall_trip_number > next_allowed then Some next_allowed else None)) of
           Some next_allowed \<Rightarrow> (Redirect (TripRoute participant_id next_allowed), st)
         | None \<Rightarrow>
             if overall_trip_number < 0 \<or> overall_trip_number \<ge> 50 then
               (NotFound ''Invalid trip number.'', st)
             else
               (case get_condition_for_trip st participant_id overall_trip_number of
                  Inl e \<Rightarrow> (ServerError e, st)
                | Inr condition \<Rightarrow>
                    (case get_trip_id_for_trip st participant_id overall_trip_number of
                       Inl e \<Rightarrow> (ServerError e, st)
                     | Inr trip_id \<Rightarrow>
                         (case (condition, trip_id) of
                            (Some c, Some t) \<Rightarrow>
                              (case py_index TRIPS_DATA t of
                                 None \<Rightarrow> (ServerError IndexError, st)
                               | Some trip_data \<Rightarrow>
                                   (Page (TripPage c t (overall_trip_number mod 10)),
                                    log_participant_event participant_id
                                      (str_int overall_trip_number) (str_int c) ''trip_view''
                                      (EText []) (str_int t) now st))
                          | _ \<Rightarrow> (NotFound ''Error determining trip details.'', st))))))"

definition trip_count_of :: "state \<Rightarrow> string \<Rightarrow> int" where
  \<comment> \<open>\<open>trip_count\<close> as check_switch and trip_reflection compute it\<close>
  "trip_count_of st participant_id =
     (case map_of (trip_logs st) (log_filename participant_id) of
        None \<Rightarrow> 0
      | Some rows \<Rightarrow> (let m = max_overall rows in if m \<ge> 0 then m + 1 else 0))"

fun first_unreflected :: "state \<Rightarrow> string \<Rightarrow> int list \<Rightarrow> nat list \<Rightarrow> exn + int option" where
  \<comment> \<open>the loop over \<open>range(0, completed_condition_block + 1)\<close>\<close>
  "first_unreflected st participant_id condition_order [] = Inr None"
| "first_unreflected st participant_id condition_order (block_idx # rest) =
     (case py_index condition_order (int block_idx) of
        None \<Rightarrow> Inl IndexError
      | Some cond \<Rightarrow>
          if map_of (reflection_files st) (reflection_filename participant_id cond) = None
          then Inr (Some cond)
          else first_unreflected st participant_id condition_order rest)"

definition check_switch :: "string \<Rightarrow> state \<Rightarrow> response" where
  "check_switch participant_id st =
     (if participant_log_files st participant_id = [] then NotFound ''Participant not found.''
      else
        (let trip_count = trip_count_of st participant_id in
         if trip_count = 0 then NotFound ''No trips found.''
         else
           (let completed_condition_block = (trip_count - 1) div 10 in
            case get_participant_assignment st participant_id of
              Inl e \<Rightarrow> ServerError e
            | Inr None \<Rightarrow> NotFound ''Participant assignment not found.''
            | Inr (Some (condition_order_idx, _)) \<Rightarrow>
                (case py_index CONDITION_ORDER_SEQUENCES condition_order_idx of
                   None \<Rightarrow> ServerError IndexError
                 | Some condition_order \<Rightarrow>
                     (case py_index condition_order completed_condition_block of
                        None \<Rightarrow> ServerError IndexError
                      | Some completed_condition \<Rightarrow>
                          (case first_unreflected st participant_id condition_order
                                  [0 ..< nat (completed_condition_block + 1)] of
                             Inl e \<Rightarrow> ServerError e
                           | Inr (Some cond) \<Rightarrow> Redirect (TripReflectionRoute participant_id cond)
                           | Inr None \<Rightarrow>
                               if map_of (reflection_files st)
                                    (reflection_filename participant_id completed_condition) = None
                               then Redirect (TripReflectionRoute participant_id completed_condition)
                               else if trip_count \<ge> 50 then Redirect (CompleteRoute participant_id)
                               else if trip_count > 0 \<and> trip_count mod 10 = 0 then
                                 Redirect (BlockIntroRoute participant_id (trip_count div 10 + 1)
                                             trip_count)
                               else Redirect (TripRoute participant_id trip_count)))))))"

definition get_condition_switches :: "state \<Rightarrow> string \<Rightarrow> (string \<times> switch_data) list" where
  "get_condition_switches st participant_id =
     (case map_of (switch_files st) (switch_filename participant_id) of
        None \<Rightarrow> [] | Some switches \<Rightarrow> switches)"





text \<open>
  The body of a \<open>POST /log/<participant_id>/<event_type>\<close> request, with the fields the
  trial page sends: the choice as text, the numbers as JSON integers.
\<close>

record event_payload =
  ep_data :: string
  ep_likert_responses :: "(string \<times> int) list"
  ep_overall_trip_number :: int
  ep_condition :: int
  ep_trip_within_condition :: int
  ep_trip_id :: int

definition log_event :: "string \<Rightarrow> string \<Rightarrow> event_payload \<Rightarrow> string \<Rightarrow> state \<Rightarrow> response \<times> state" where
  "log_event participant_id event_type data now st =
     (if participant_log_files st participant_id = [] then
        (JsonError 404 ''Participant not found'', st)
      else if event_type = ''trip_choice'' then
        (let (success, st1) =
               log_trip_choice participant_id (ep_overall_trip_number data) (ep_condition data)
                 (ep_trip_within_condition data) (ep_trip_id data) (ep_data data) now st;
             st2 = log_participant_event participant_id (str_int (ep_overall_trip_number data))
                     (str_int (ep_condition data)) event_type (EText (ep_data data))
                     (str_int (ep_trip_id data)) now st1
         in if \<not> success then (JsonError 500 ''Failed to persist trip choice'', st2)
            else (Json ''logged'', st2))
      else if event_type = ''condition_likert'' then
        (Json ''logged'',
         foldl (\<lambda>s (question, response).
                  log_participant_event participant_id (str_int (ep_overall_trip_number data))
                    (str_int (ep_condition data)) (''likert_'' @ question)
                    (EText (str_int response)) (str_int (ep_trip_id data)) now s)
               st (ep_likert_responses data))
      else
        (Json ''logged'',
         log_participant_event participant_id (str_int (ep_overall_trip_number data))
           (str_int (ep_condition data)) event_type (EText (ep_data data))
           (str_int (ep_trip_id data)) now st))"

section \<open>Reachable states\<close>

text \<open>
  One step is one request served. \<open>check_switch\<close> and \<open>trip_reflection\<close> write
  nothing; the pages that only append a diagnostic entry (study_interface,
  study_complete) are the rule for \<open>log_participant_event\<close>. A state is reachable when
  requests lead to it from the empty directories.
\<close>

inductive step :: "state \<Rightarrow> state \<Rightarrow> bool" where
  s_assign: "step st (snd (assign_participant participant_id now st))"
| s_show: "step st (snd (show_trip (TRIPS_DATA :: unit list) participant_id overall_trip_number now st))"
| s_log: "step st (snd (log_event participant_id event_type data now st))"
| s_reflect: "step st (snd (complete_reflection participant_id condition payload now st))"
| s_event: "step st (log_participant_event participant_id a b event_type d c now st)"

definition reachable :: "state \<Rightarrow> bool" where
  "reachable st = step\<^sup>*\<^sup>* initial_state st"

section \<open>Notions of the specification\<close>

text \<open>
  The ids that are not served as participants: ending in one of the nine extensions, containing a slash, or
  equal to one of four file names whatever the case of the letters.
\<close>

definition bot_request :: "string \<Rightarrow> bool" where
  "bot_request participant_id =
     ((\<exists>ext \<in> set [''.php'', ''.ico'', ''.txt'', ''.xml'', ''.js'', ''.css'', ''.html'',
                     ''.jsp'', ''.asp'']. suffix ext participant_id) \<or>
      CHR ''/'' \<in> set participant_id \<or>
      (\<exists>name \<in> set [''favicon.ico'', ''robots.txt'', ''sitemap.xml'', ''wp-config.php''].
         lower participant_id = name))"

definition ledger_rows :: "state \<Rightarrow> csv" where
  \<comment> \<open>the assignment records: the ledger without its header\<close>
  "ledger_rows st = (case assignments_file st of None \<Rightarrow> [] | Some rows \<Rightarrow> tl rows)"

definition trial_rows :: "state \<Rightarrow> string \<Rightarrow> csv" where
  \<comment> \<open>the TrialRecords of a participant: the trial log without its header\<close>
  "trial_rows st participant_id =
     (case map_of (trip_logs st) (log_filename participant_id) of
        None \<Rightarrow> [] | Some rows \<Rightarrow> tl rows)"

text \<open>
  The trial numbers recorded in a log, rows without a readable number left out, and the
  next trial number as the specification defines it: the highest recorded number plus
  one, or 0 for a log without records.
\<close>

definition recorded_numbers :: "csv \<Rightarrow> int list" where
  "recorded_numbers rows =
     List.map_filter (\<lambda>row. if overall_column rows < length row
                             then py_int (row ! overall_column rows) else None) (tl rows)"


definition trial_numbers :: "state \<Rightarrow> string \<Rightarrow> int list" where
  \<comment> \<open>the overallTrialNumber values of a participant's trial log, in file order\<close>
  "trial_numbers st participant_id =
     (case map_of (trip_logs st) (log_filename participant_id) of
        None \<Rightarrow> [] | Some rows \<Rightarrow> recorded_numbers rows)"


definition reflection_done :: "state \<Rightarrow> string \<Rightarrow> int \<Rightarrow> bool" where
  \<comment> \<open>a ReflectionRecord file exists for the participant and the condition\<close>
  "reflection_done st participant_id condition =
     (map_of (reflection_files st) (reflection_filename participant_id condition) \<noteq> None)"


definition condition_records :: "state \<Rightarrow> string \<Rightarrow> int \<Rightarrow> csv" where
  \<comment> \<open>the TrialRecords of a participant with the given condition\<close>
  "condition_records st participant_id condition =
     filter (\<lambda>row. 2 < length row \<and> py_int (row ! 2) = Some condition)
            (trial_rows st participant_id)"





section \<open>Well-formed files\<close>

definition is_digit :: "char \<Rightarrow> bool" where
  "is_digit c = (\<exists>d < 10. c = digit_chars ! d)"

definition dec_val :: "nat \<Rightarrow> string \<Rightarrow> nat" where
  "dec_val acc s = foldl (\<lambda>a c. a * 10 + the (digit_val c)) acc s"

definition canonical :: "string \<Rightarrow> bool" where
  \<comment> \<open>the cell is \<open>str\<close> of the integer it reads as\<close>
  "canonical s = (case py_int s of None \<Rightarrow> False | Some n \<Rightarrow> s = str_int n)"

definition wf_row :: "row \<Rightarrow> bool" where
  \<comment> \<open>a row as log_trip_choice writes it: eleven cells, the numbers as \<open>str\<close> prints them\<close>
  "wf_row row = (length row = 11 \<and> canonical (row ! 1) \<and> canonical (row ! 2) \<and> canonical (row ! 5))"

definition wf_log :: "csv \<Rightarrow> bool" where
  "wf_log rows = (rows \<noteq> [] \<and> hd rows = participant_log_header \<and>
                  (\<forall>row \<in> set (tl rows). wf_row row) \<and>
                  distinct (map (\<lambda>row. row ! 1) (tl rows)))"

text \<open>What holds of the files in every reachable state.\<close>

definition ledger_ok :: "state \<Rightarrow> bool" where
  \<comment> \<open>the ledger has its header; record number \<open>i\<close> carries \<open>i mod 5\<close> and \<open>i mod 10\<close>, its
      participant passed the filter and has a trial log; no participant has two records\<close>
  "ledger_ok st =
     ((case assignments_file st of None \<Rightarrow> True | Some rows \<Rightarrow> rows \<noteq> []) \<and>
      (\<forall>i < length (ledger_rows st).
         length (ledger_rows st ! i) = 4 \<and>
         ledger_rows st ! i ! 1 = str_int (int i mod 5) \<and>
         ledger_rows st ! i ! 2 = str_int (int i mod 10) \<and>
         \<not> bot_request (ledger_rows st ! i ! 0) \<and>
         map_of (trip_logs st) (log_filename (ledger_rows st ! i ! 0)) \<noteq> None) \<and>
      distinct (map (\<lambda>row. row ! 0) (ledger_rows st)))"

definition logs_ok :: "state \<Rightarrow> bool" where
  \<comment> \<open>every trial log is well formed and belongs to a participant of the ledger\<close>
  "logs_ok st =
     (\<forall>name rows. map_of (trip_logs st) name = Some rows \<longrightarrow>
        wf_log rows \<and> (\<exists>row \<in> set (ledger_rows st). name = log_filename (row ! 0)))"

definition switches_ok :: "state \<Rightarrow> bool" where
  \<comment> \<open>a recorded ride has a first-switch record for its condition\<close>
  "switches_ok st =
     (\<forall>p. \<forall>row \<in> set (trial_rows st p).
        row ! 6 \<noteq> ''walking'' \<longrightarrow>
        map_of (get_condition_switches st p) (''condition_'' @ row ! 2) \<noteq> None)"

definition invariant :: "state \<Rightarrow> bool" where
  "invariant st = (ledger_ok st \<and> logs_ok st \<and> switches_ok st)"

section \<open>Sample states\<close>

text \<open>A ledger whose only participant, \<open>P1\<close>, has the assignment (0, 0).\<close>

definition ledger_P1 :: state where
  "ledger_P1 = initial_state\<lparr>assignments_file :=
       Some [assignments_header, [''P1'', ''0'', ''0'', ''2025-09-05T10:00:00'']]\<rparr>"

text \<open>The files after \<open>P1\<close> has been assigned at time \<open>t0\<close> in the empty directories.\<close>

definition st_P1 :: state where
  "st_P1 =
     \<lparr>assignments_file = Some [assignments_header, [''P1'', ''0'', ''0'', ''t0'']],
      trip_logs = [(''P1.csv'', [participant_log_header])],
      switch_files = [],
      reflection_files = [],
      event_logs = [(''P1_events.csv'',
                     [\<lparr>ev_participant = ''P1'', ev_overall_trip_number = [], ev_condition = [],
                       ev_timestamp = ''t0'', ev_type = ''assignment'', ev_trip_id = [],
                       ev_data = EText ''participant_assigned''\<rparr>])]\<rparr>"

text \<open>
  \<open>P1\<close> records walking for trial 0 (condition 0, trip 0) at time \<open>t1\<close>; then the same
  trial is submitted again at \<open>t2\<close> with the choice \<open>eco_ride\<close>.
\<close>

definition walk_0 :: event_payload where
  "walk_0 = \<lparr>ep_data = ''walking'', ep_likert_responses = [], ep_overall_trip_number = 0,
             ep_condition = 0, ep_trip_within_condition = 0, ep_trip_id = 0\<rparr>"


definition st_P1_walked :: state where
  "st_P1_walked = snd (log_event ''P1'' ''trip_choice'' walk_0 ''t1'' st_P1)"


definition row_walk_0 :: row where
  "row_walk_0 = [''P1'', ''0'', ''0'', ''0'', ''t1'', ''0'', ''walking'', [], [], [], []]"








definition walking_payload :: reflection_payload where
  "walking_payload = \<lparr>rp_reflection_type = Some ''walking_only'', rp_walking_reason = Some ''far'',
                      rp_rationale = None, rp_trip_likert_responses = None\<rparr>"









section \<open>Decimal text of an integer\<close>

text \<open>\<open>int(str(n)) == n\<close>: what the program writes for a number reads back as that number.\<close>

lemma lt10: "(d::nat) < 10 \<Longrightarrow> d = 0 \<or> d = 1 \<or> d = 2 \<or> d = 3 \<or> d = 4 \<or> d = 5 \<or> d = 6 \<or> d = 7 \<or> d = 8 \<or> d = 9"
  by arith

lemma digit_val_digit: "d < 10 \<Longrightarrow> digit_val (digit_chars ! d) = Some d"
  using lt10[of d] by (auto simp add: digit_val_def digit_chars_def)

lemma digit_not_special: "d < 10 \<Longrightarrow> digit_chars ! d \<noteq> CHR ''_'' \<and> digit_chars ! d \<noteq> CHR ''-'' \<and> digit_chars ! d \<noteq> CHR ''+'' \<and> \<not> is_space (digit_chars ! d)"
  using lt10[of d] by (auto simp add: digit_chars_def is_space_def)

lemma parse_digits_all_digits:
  "\<forall>c \<in> set s. is_digit c \<Longrightarrow> parse_digits acc s = Some (dec_val acc s)"
proof (induction s arbitrary: acc)
  case Nil
  then show ?case by (simp add: dec_val_def)
next
  case (Cons c s)
  from Cons.prems have cd: "is_digit c" and rest: "\<forall>x \<in> set s. is_digit x" by simp_all
  obtain d where d: "d < 10" "c = digit_chars ! d" using cd unfolding is_digit_def by blast
  have nu: "c \<noteq> CHR ''_''" unfolding d(2) using digit_not_special[OF d(1)] by (rule conjunct1)
  have dv: "digit_val c = Some d" unfolding d(2) using d(1) by (rule digit_val_digit)
  have "parse_digits acc (c # s) = parse_digits (acc * 10 + d) s" by (simp add: nu dv)
  also have "\<dots> = Some (dec_val (acc * 10 + d) s)" using Cons.IH[OF rest] .
  also have "dec_val (acc * 10 + d) s = dec_val acc (c # s)" by (simp add: dec_val_def dv)
  finally show ?case .
qed

lemma digits_all_digits: "\<forall>c \<in> set (digits n). is_digit c"
proof (induction n rule: digits.induct)
  case (1 n)
  show ?case
  proof (cases "n < 10")
    case True
    then show ?thesis by (subst digits.simps) (auto simp: is_digit_def)
  next
    case False
    have "n mod 10 < 10" by simp
    then have "is_digit (digit_chars ! (n mod 10))" unfolding is_digit_def by blast
    with False 1 show ?thesis by (subst digits.simps) auto
  qed
qed

lemma digits_nonempty: "digits n \<noteq> []"
  by (subst digits.simps) simp

lemma dec_val_digits: "dec_val 0 (digits n) = n"
proof (induction n rule: digits.induct)
  case (1 n)
  show ?case
  proof (cases "n < 10")
    case True
    then show ?thesis by (subst digits.simps) (simp add: dec_val_def digit_val_digit)
  next
    case False
    have "dec_val 0 (digits n) = dec_val 0 (digits (n div 10)) * 10 + the (digit_val (digit_chars ! (n mod 10)))"
      using False by (subst digits.simps) (simp add: dec_val_def)
    also have "\<dots> = (n div 10) * 10 + n mod 10"
      using 1 False by (simp add: digit_val_digit)
    finally show ?thesis by simp
  qed
qed

lemma parse_nat_digits: "parse_nat (digits n) = Some n"
proof -
  obtain c cs where cs: "digits n = c # cs" using digits_nonempty by (cases "digits n") auto
  have all: "\<forall>x \<in> set (c # cs). is_digit x" using digits_all_digits[of n] cs by simp
  then obtain d where d: "d < 10" "c = digit_chars ! d" by (auto simp: is_digit_def)
  have dv: "digit_val c = Some d" using d digit_val_digit by simp
  have "parse_nat (c # cs) = parse_digits d cs" by (simp add: parse_nat_def dv)
  also have "\<dots> = Some (dec_val d cs)" using all parse_digits_all_digits by simp
  also have "dec_val d cs = dec_val 0 (c # cs)" by (simp add: dec_val_def dv)
  finally show ?thesis using cs dec_val_digits[of n] by simp
qed

lemma strip_id: "s \<noteq> [] \<Longrightarrow> \<not> is_space (hd s) \<Longrightarrow> \<not> is_space (last s) \<Longrightarrow> strip s = s"
proof -
  assume a: "s \<noteq> []" "\<not> is_space (hd s)" "\<not> is_space (last s)"
  have 1: "dropWhile is_space s = s" using a by (simp add: dropWhile_eq_self_iff)
  have 2: "dropWhile is_space (rev s) = rev s" using a by (simp add: dropWhile_eq_self_iff hd_rev)
  show ?thesis by (simp add: strip_def 1 2)
qed

lemma digits_hd_last: "is_digit (hd (digits n)) \<and> is_digit (last (digits n))"
  using digits_all_digits[of n] digits_nonempty[of n] hd_in_set[of "digits n"] last_in_set[of "digits n"] by blast

lemma is_digit_not_special:
  assumes "is_digit c"
  shows "c \<noteq> CHR ''-''" and "c \<noteq> CHR ''+''" and "\<not> is_space c"
proof -
  obtain d where d: "d < 10" "c = digit_chars ! d" using assms unfolding is_digit_def by blast
  note n = digit_not_special[OF d(1)]
  show "c \<noteq> CHR ''-''" unfolding d(2) using n by (elim conjE)
  show "c \<noteq> CHR ''+''" unfolding d(2) using n by (elim conjE)
  show "\<not> is_space c" unfolding d(2) using n by (elim conjE)
qed

lemma py_int_str_int: "py_int (str_int i) = Some i"
proof (cases "i < 0")
  case True
  let ?s = "CHR ''-'' # digits (nat (- i))"
  have nsl: "\<not> is_space (last (digits (nat (- i))))"
    using digits_hd_last[of "nat (- i)"] by (intro is_digit_not_special(3)) (rule conjunct2)
  have "\<not> is_space (last ?s)" using nsl digits_nonempty[of "nat (- i)"] by simp
  moreover have "\<not> is_space (hd ?s)" by (simp add: is_space_def)
  ultimately have "strip ?s = ?s" using strip_id by blast
  then show ?thesis using True by (simp add: py_int_def str_int_def parse_nat_digits)
next
  case False
  let ?s = "digits (nat i)"
  obtain c cs where cs: "?s = c # cs" using digits_nonempty by (cases ?s) auto
  have "is_digit c" using digits_hd_last[of "nat i"] cs by simp
  then have c: "c \<noteq> CHR ''-''" "c \<noteq> CHR ''+''" by (rule is_digit_not_special)+
  have "\<not> is_space (hd ?s)" using digits_hd_last[of "nat i"] by (intro is_digit_not_special(3)) (rule conjunct1)
  moreover have "\<not> is_space (last ?s)" using digits_hd_last[of "nat i"] by (intro is_digit_not_special(3)) (rule conjunct2)
  ultimately have "strip ?s = ?s" using strip_id[of ?s] digits_nonempty[of "nat i"] by simp
  then show ?thesis using False c cs parse_nat_digits[of "nat i"] by (simp add: py_int_def str_int_def)
qed


section \<open>Resolving the condition and the trip of a trial\<close>

lemma py_index_in_range:
  "0 \<le> i \<Longrightarrow> i < int (length xs) \<Longrightarrow> py_index xs i = Some (xs ! nat i)"
  by (simp add: py_index_def Let_def)

lemma lt5_int: "0 \<le> (i::int) \<Longrightarrow> i < 5 \<Longrightarrow> i = 0 \<or> i = 1 \<or> i = 2 \<or> i = 3 \<or> i = 4"
  by arith

lemma lt10_int: "0 \<le> (i::int) \<Longrightarrow> i < 10 \<Longrightarrow>
  i = 0 \<or> i = 1 \<or> i = 2 \<or> i = 3 \<or> i = 4 \<or> i = 5 \<or> i = 6 \<or> i = 7 \<or> i = 8 \<or> i = 9"
  by arith

lemma condition_row_length:
  "0 \<le> r \<Longrightarrow> r < 5 \<Longrightarrow> length (CONDITION_ORDER_SEQUENCES ! nat r) = 5"
  using lt5_int[of r] by (auto simp: CONDITION_ORDER_SEQUENCES_def)

lemma trip_row_length:
  "0 \<le> r \<Longrightarrow> r < 10 \<Longrightarrow> length (TRIP_ORDER_SEQUENCES ! nat r) = 10"
  using lt10_int[of r] by (auto simp: TRIP_ORDER_SEQUENCES_def)

lemma ConditionOrderTable_code: "ConditionOrderTable r k = CONDITION_ORDER_SEQUENCES ! r ! k"
  by (simp add: ConditionOrderTable_def CONDITION_ORDER_SEQUENCES_def)

lemma TrialOrderTable_code: "TrialOrderTable r k = TRIP_ORDER_SEQUENCES ! r ! k"
  by (simp add: TrialOrderTable_def TRIP_ORDER_SEQUENCES_def)

lemma condition_lookup:
  assumes "0 \<le> r" "r < 5" "0 \<le> k" "k < 5"
  shows "py_index CONDITION_ORDER_SEQUENCES r = Some (CONDITION_ORDER_SEQUENCES ! nat r)"
    and "py_index (CONDITION_ORDER_SEQUENCES ! nat r) k = Some (ConditionOrderTable (nat r) (nat k))"
proof -
  have "length CONDITION_ORDER_SEQUENCES = 5" by (simp add: CONDITION_ORDER_SEQUENCES_def)
  then show "py_index CONDITION_ORDER_SEQUENCES r = Some (CONDITION_ORDER_SEQUENCES ! nat r)"
    using assms by (simp add: py_index_in_range)
  show "py_index (CONDITION_ORDER_SEQUENCES ! nat r) k = Some (ConditionOrderTable (nat r) (nat k))"
    using assms condition_row_length[of r] by (simp add: py_index_in_range ConditionOrderTable_code)
qed

lemma trip_lookup:
  assumes "0 \<le> r" "r < 10" "0 \<le> k" "k < 10"
  shows "py_index TRIP_ORDER_SEQUENCES r = Some (TRIP_ORDER_SEQUENCES ! nat r)"
    and "py_index (TRIP_ORDER_SEQUENCES ! nat r) k = Some (TrialOrderTable (nat r) (nat k))"
proof -
  have "length TRIP_ORDER_SEQUENCES = 10" by (simp add: TRIP_ORDER_SEQUENCES_def)
  then show "py_index TRIP_ORDER_SEQUENCES r = Some (TRIP_ORDER_SEQUENCES ! nat r)"
    using assms by (simp add: py_index_in_range)
  show "py_index (TRIP_ORDER_SEQUENCES ! nat r) k = Some (TrialOrderTable (nat r) (nat k))"
    using assms trip_row_length[of r] by (simp add: py_index_in_range TrialOrderTable_code)
qed

lemma get_condition_for_trip_assigned:
  assumes a: "get_participant_assignment st pid = Inr (Some (coi, toi))"
      and "0 \<le> coi" "coi < 5" "0 \<le> n" "n \<le> 49"
  shows "get_condition_for_trip st pid n = Inr (Some (ConditionOrderTable (nat coi) (nat (n div 10))))"
proof -
  have "0 \<le> n div 10" "n div 10 < 5" using assms by simp_all
  then show ?thesis using assms(2,3) by (simp add: get_condition_for_trip_def a condition_lookup)
qed

lemma get_trip_id_for_trip_assigned:
  assumes a: "get_participant_assignment st pid = Inr (Some (coi, toi))"
      and "0 \<le> n" "n \<le> 49"
  shows "get_trip_id_for_trip st pid n =
         Inr (Some (TrialOrderTable (nat ((toi + n div 10) mod 10)) (nat (n mod 10))))"
proof -
  have len: "int (length TRIP_ORDER_SEQUENCES) = 10" by (simp add: TRIP_ORDER_SEQUENCES_def)
  have r: "0 \<le> (toi + n div 10) mod 10" "(toi + n div 10) mod 10 < 10" by simp_all
  have k: "0 \<le> n mod 10" "n mod 10 < 10" by simp_all
  show ?thesis
    by (simp add: get_trip_id_for_trip_def a Let_def len trip_lookup[OF r k])
qed

text \<open>
  C1. For an assignment \<open>(condition_order_idx, trip_order_idx)\<close> found in the ledger, with
  \<open>condition_order_idx\<close> in 0..4, and a trial number \<open>n\<close> in 0..49,
  \<open>get_condition_for_trip\<close> returns \<open>ConditionOrderTable[condition_order_idx][n div 10]\<close>
  and \<open>get_trip_id_for_trip\<close> returns
  \<open>TrialOrderTable[(trip_order_idx + n div 10) mod 10][n mod 10]\<close>, the tables being the
  ones the specification prints. Both results are functions of the assignment and \<open>n\<close>
  alone. With the assignment (0, 0), trial 0 resolves to condition 0 and trip 0, trial 10
  to condition 1 and trip 4.
\<close>

theorem resolve_condition_and_trip_id:
  assumes "get_participant_assignment st pid = Inr (Some (coi, toi))"
      and "0 \<le> coi" "coi < 5" "0 \<le> n" "n \<le> 49"
  shows "get_condition_for_trip st pid n =
           Inr (Some (ConditionOrderTable (nat coi) (nat (n div 10)))) \<and>
         get_trip_id_for_trip st pid n =
           Inr (Some (TrialOrderTable (nat ((toi + n div 10) mod 10)) (nat (n mod 10)))) \<and>
         (coi = 0 \<and> toi = 0 \<longrightarrow>
            get_condition_for_trip st pid 0 = Inr (Some 0) \<and>
            get_trip_id_for_trip st pid 0 = Inr (Some 0) \<and>
            get_condition_for_trip st pid 10 = Inr (Some 1) \<and>
            get_trip_id_for_trip st pid 10 = Inr (Some 4))"
proof (intro conjI impI)
  show "get_condition_for_trip st pid n =
           Inr (Some (ConditionOrderTable (nat coi) (nat (n div 10))))"
    using assms by (rule get_condition_for_trip_assigned)
  show "get_trip_id_for_trip st pid n =
           Inr (Some (TrialOrderTable (nat ((toi + n div 10) mod 10)) (nat (n mod 10))))"
    using assms(1,4,5) by (rule get_trip_id_for_trip_assigned)
next
  assume z: "coi = 0 \<and> toi = 0"
  then have a0: "get_participant_assignment st pid = Inr (Some (0, 0))" using assms(1) by simp
  show "get_condition_for_trip st pid 0 = Inr (Some 0)"
    using get_condition_for_trip_assigned[OF a0, of 0] by (simp add: ConditionOrderTable_def)
  show "get_trip_id_for_trip st pid 0 = Inr (Some 0)"
    using get_trip_id_for_trip_assigned[OF a0, of 0] by (simp add: TrialOrderTable_def)
  show "get_condition_for_trip st pid 10 = Inr (Some 1)"
    using get_condition_for_trip_assigned[OF a0, of 10] by (simp add: ConditionOrderTable_def)
  show "get_trip_id_for_trip st pid 10 = Inr (Some 4)"
    using get_trip_id_for_trip_assigned[OF a0, of 10] by (simp add: TrialOrderTable_def)
qed

lemma py_int_0: "py_int ''0'' = Some 0"
  by (simp add: py_int_def strip_def is_space_def parse_nat_def digit_val_def digit_chars_def)

lemma ledger_P1_assignment: "get_participant_assignment ledger_P1 ''P1'' = Inr (Some (0, 0))"
  by (simp add: get_participant_assignment_def ledger_P1_def py_int_0)

theorem resolve_condition_and_trip_id_witness:
  "get_participant_assignment ledger_P1 ''P1'' = Inr (Some (0, 0)) \<and>
   get_condition_for_trip ledger_P1 ''P1'' 37 = Inr (Some 3) \<and>
   get_trip_id_for_trip ledger_P1 ''P1'' 37 = Inr (Some 2) \<and>
   get_condition_for_trip ledger_P1 ''P1'' 10 = Inr (Some 1) \<and>
   get_trip_id_for_trip ledger_P1 ''P1'' 10 = Inr (Some 4)"
  using resolve_condition_and_trip_id[OF ledger_P1_assignment, of 37] ledger_P1_assignment
  by (simp add: ConditionOrderTable_def TrialOrderTable_def)

section \<open>The filter on participant ids\<close>

lemma bot_request_iff:
  "bot_request participant_id \<longleftrightarrow>
     (endswith participant_id ''.php'' \<or>
      endswith participant_id ''.ico'' \<or>
      endswith participant_id ''.txt'' \<or>
      endswith participant_id ''.xml'' \<or>
      endswith participant_id ''.js'' \<or>
      endswith participant_id ''.css'' \<or>
      endswith participant_id ''.html'' \<or>
      endswith participant_id ''.jsp'' \<or>
      endswith participant_id ''.asp'' \<or>
      CHR ''/'' \<in> set participant_id \<or>
      lower participant_id \<in> set [''favicon.ico'', ''robots.txt'', ''sitemap.xml'', ''wp-config.php''])"
  unfolding bot_request_def endswith_def by (simp only: list.set bex_simps ball_simps insert_iff empty_iff) blast

lemma assign_participant_bot:
  "bot_request participant_id \<Longrightarrow> assign_participant participant_id now st = (NotFound ''Not found'', st)"
  unfolding assign_participant_def bot_request_iff by (rule if_P)

section \<open>What each write changes\<close>

lemma create_event_log_frame:
  "assignments_file (create_event_log p now st) = assignments_file st"
  "trip_logs (create_event_log p now st) = trip_logs st"
  "switch_files (create_event_log p now st) = switch_files st"
  "reflection_files (create_event_log p now st) = reflection_files st"
  by (simp_all add: create_event_log_def)

lemma log_participant_event_frame:
  "assignments_file (log_participant_event p a b t d c now st) = assignments_file st"
  "trip_logs (log_participant_event p a b t d c now st) = trip_logs st"
  "switch_files (log_participant_event p a b t d c now st) = switch_files st"
  "reflection_files (log_participant_event p a b t d c now st) = reflection_files st"
  by (simp_all add: log_participant_event_def Let_def create_event_log_frame)

lemma track_first_ride_switch_frame:
  "assignments_file (track_first_ride_switch p n c t ch now st) = assignments_file st"
  "trip_logs (track_first_ride_switch p n c t ch now st) = trip_logs st"
  "reflection_files (track_first_ride_switch p n c t ch now st) = reflection_files st"
  "event_logs (track_first_ride_switch p n c t ch now st) = event_logs st"
  by (simp_all add: track_first_ride_switch_def Let_def)

lemma update_csv_frame:
  "assignments_file (update_csv_with_reflection_data p c st) = assignments_file st"
  "switch_files (update_csv_with_reflection_data p c st) = switch_files st"
  "reflection_files (update_csv_with_reflection_data p c st) = reflection_files st"
  "event_logs (update_csv_with_reflection_data p c st) = event_logs st"
  by (simp_all add: update_csv_with_reflection_data_def Let_def split: option.splits)

lemma log_trip_choice_frame:
  "assignments_file (snd (log_trip_choice p n c w t ch now st)) = assignments_file st"
  "reflection_files (snd (log_trip_choice p n c w t ch now st)) = reflection_files st"
  "event_logs (snd (log_trip_choice p n c w t ch now st)) = event_logs st"
  by (simp_all add: log_trip_choice_def Let_def track_first_ride_switch_frame
        split: option.splits sum.splits)

section \<open>The first-switch record\<close>

lemma switch_filename_inj: "switch_filename p = switch_filename q \<longleftrightarrow> p = q"
  by (simp add: switch_filename_def)

lemma log_filename_inj: "log_filename p = log_filename q \<longleftrightarrow> p = q"
  by (simp add: log_filename_def)

lemma track_other_participant:
  "q \<noteq> p \<Longrightarrow> get_condition_switches (track_first_ride_switch p n c t ch now st) q =
                get_condition_switches st q"
  by (simp add: track_first_ride_switch_def get_condition_switches_def Let_def update_conv'
        switch_filename_inj)

lemma track_switches:
  "get_condition_switches (track_first_ride_switch p n c t ch now st) p =
     (if ch \<noteq> ''walking'' \<and>
         map_of (get_condition_switches st p) (''condition_'' @ str_int c) = None
      then AList.update (''condition_'' @ str_int c)
             \<lparr>sw_participant_id = p, sw_overall_trip_number = n, sw_condition = c,
              sw_trip_within_condition = n mod 10, sw_trip_id = t, sw_choice = ch,
              sw_timestamp = now\<rparr> (get_condition_switches st p)
      else get_condition_switches st p)"
  by (simp add: track_first_ride_switch_def get_condition_switches_def Let_def update_conv')

lemma track_keeps_record:
  assumes "map_of (get_condition_switches st q) key = Some r"
  shows "map_of (get_condition_switches (track_first_ride_switch p n c t ch now st) q) key = Some r"
proof (cases "q = p")
  case False
  then show ?thesis using assms by (simp add: track_other_participant)
next
  case True
  show ?thesis
  proof (cases "key = ''condition_'' @ str_int c")
    case True
    then show ?thesis using assms \<open>q = p\<close> by (simp add: track_switches)
  next
    case False
    then show ?thesis using assms \<open>q = p\<close> by (simp add: track_switches update_conv')
  qed
qed

lemma track_creates_record:
  "ch \<noteq> ''walking'' \<Longrightarrow>
   map_of (get_condition_switches (track_first_ride_switch p n c t ch now st) p)
     (''condition_'' @ str_int c) \<noteq> None"
  by (simp add: track_switches update_conv')

section \<open>Rows of the trial log\<close>

lemma canonical_str_int: "canonical (str_int n)"
  by (simp add: canonical_def py_int_str_int)


lemma header_columns:
  "index_opt participant_log_header ''overall_trip_number'' = Some 1"
  "index_opt participant_log_header ''condition'' = Some 2"
  "index_opt participant_log_header ''trip_id'' = Some 5"
  "index_opt participant_log_header ''choice'' = Some 6"
  "index_opt participant_log_header ''trip_reflection_rationale'' = Some 7"
  "index_opt participant_log_header ''walking_reflection_walking_reason'' = Some 10"
  by (simp_all add: participant_log_header_def)

lemma overall_column_header: "overall_column (participant_log_header # body) = 1"
  by (simp add: overall_column_def header_columns)

lemma length_set_cells: "length (set_cells row ps) = length row"
  by (induction ps arbitrary: row) auto

lemma set_cells_other: "j \<notin> fst ` set ps \<Longrightarrow> set_cells row ps ! j = row ! j"
  by (induction ps arbitrary: row) auto

lemma length_update_row: "length (update_row cc trs wrs c rf row) = length row"
  by (simp add: update_row_def length_set_cells split: option.splits reflection.splits)

lemma update_row_other_cells:
  "j \<notin> {trs, trs + 1, trs + 2, wrs} \<Longrightarrow> update_row cc trs wrs c rf row ! j = row ! j"
  by (simp add: update_row_def set_cells_other split: option.splits reflection.splits)


lemma wf_row_update_row: "wf_row row \<Longrightarrow> wf_row (update_row 2 7 10 c rf row)"
  by (simp add: wf_row_def length_update_row update_row_other_cells)

lemma length_reflection_cells: "reflection_cells rf = Inr cells \<Longrightarrow> length cells = 4"
  by (auto simp: reflection_cells_def split: option.splits reflection.splits)

lemma wf_row_new:
  "length cells = 4 \<Longrightarrow> wf_row ([p, str_int n, str_int c, str_int w, now, str_int t, ch] @ cells)"
  by (simp add: wf_row_def canonical_str_int)

lemma log_trip_choice_logs:
  "trip_logs (snd (log_trip_choice p n c w t ch now st)) = trip_logs st \<or>
   (\<exists>rows cells.
      map_of (trip_logs st) (log_filename p) = Some rows \<and>
      (\<forall>row \<in> set (tl rows).
         \<not> (overall_column rows < length row \<and> row ! overall_column rows = str_int n)) \<and>
      length cells = 4 \<and>
      trip_logs (snd (log_trip_choice p n c w t ch now st)) =
        AList.update (log_filename p)
          (rows @ [[p, str_int n, str_int c, str_int w, now, str_int t, ch] @ cells])
          (trip_logs st))"
proof (cases "map_of (trip_logs st) (log_filename p)")
  case None
  then show ?thesis by (simp add: log_trip_choice_def track_first_ride_switch_frame)
next
  case (Some rows)
  show ?thesis
  proof (cases "\<exists>row \<in> set (tl rows).
                  overall_column rows < length row \<and> row ! overall_column rows = str_int n")
    case True
    then show ?thesis using Some
      by (simp add: log_trip_choice_def Let_def track_first_ride_switch_frame)
  next
    case False
    show ?thesis
    proof (cases "reflection_cells (get_trip_reflection_data st p c)")
      case (Inl e)
      then show ?thesis using Some False by (auto simp add: log_trip_choice_def Let_def)
    next
      case (Inr cells)
      have "trip_logs (snd (log_trip_choice p n c w t ch now st)) =
              AList.update (log_filename p)
                (rows @ [[p, str_int n, str_int c, str_int w, now, str_int t, ch] @ cells])
                (trip_logs st)"
        using Some False Inr
        by (auto simp add: log_trip_choice_def Let_def track_first_ride_switch_frame)
      then show ?thesis using Some False length_reflection_cells[OF Inr] by blast
    qed
  qed
qed

lemma wf_log_append:
  assumes "wf_log rows"
      and "\<forall>row \<in> set (tl rows).
             \<not> (overall_column rows < length row \<and> row ! overall_column rows = str_int n)"
      and "length cells = 4"
  shows "wf_log (rows @ [[p, str_int n, str_int c, str_int w, now, str_int t, ch] @ cells])"
proof -
  obtain body where rows: "rows = participant_log_header # body"
    using assms(1) by (cases rows) (auto simp: wf_log_def)
  have col: "overall_column rows = 1" by (simp add: rows overall_column_header)
  have "\<forall>row \<in> set body. row ! 1 \<noteq> str_int n"
    using assms(1,2) by (auto simp: rows overall_column_header wf_log_def wf_row_def)
  then have "str_int n \<notin> (\<lambda>row. row ! 1) ` set body" by auto
  then show ?thesis
    using assms(1,3) wf_row_new[OF assms(3), of p n c w now t ch]
    by (simp add: rows wf_log_def)
qed

lemma wf_log_update_rows:
  assumes "wf_log rows"
  shows "wf_log (hd rows # map (update_row 2 7 10 c rf) (tl rows))"
proof -
  have "(\<lambda>row. row ! 1) \<circ> update_row 2 7 10 c rf = (\<lambda>row. row ! 1)"
    by (rule ext) (simp add: update_row_other_cells)
  then show ?thesis using assms by (simp add: wf_log_def wf_row_update_row)
qed

lemma update_csv_logs:
  assumes "\<forall>name rows. map_of (trip_logs st) name = Some rows \<longrightarrow> wf_log rows"
  shows "trip_logs (update_csv_with_reflection_data p c st) = trip_logs st \<or>
         (\<exists>rows. map_of (trip_logs st) (log_filename p) = Some rows \<and>
            trip_logs (update_csv_with_reflection_data p c st) =
              AList.update (log_filename p)
                (hd rows # map (update_row 2 7 10 c (get_trip_reflection_data st p c)) (tl rows))
                (trip_logs st))"
proof (cases "map_of (trip_logs st) (log_filename p)")
  case None
  then show ?thesis by (simp add: update_csv_with_reflection_data_def)
next
  case (Some rows)
  then have "wf_log rows" using assms by blast
  then have "hd rows = participant_log_header" by (simp add: wf_log_def)
  then show ?thesis using Some
    by (simp add: update_csv_with_reflection_data_def Let_def header_columns)
qed

section \<open>The invariant\<close>

lemma invariant_cong:
  assumes "assignments_file st' = assignments_file st" "trip_logs st' = trip_logs st"
          "switch_files st' = switch_files st"
  shows "invariant st' = invariant st"
  using assms
  by (simp add: invariant_def ledger_ok_def logs_ok_def switches_ok_def ledger_rows_def
        trial_rows_def get_condition_switches_def)

lemma invariant_initial: "invariant initial_state"
  by (simp add: invariant_def ledger_ok_def logs_ok_def switches_ok_def ledger_rows_def
        trial_rows_def initial_state_def)

lemma invariant_event: "invariant (log_participant_event p a b t d c now st) = invariant st"
  by (rule invariant_cong) (simp_all add: log_participant_event_frame)

lemma invariant_show_trip: "invariant (snd (show_trip T p n now st)) = invariant st"
  by (rule invariant_cong)
     (simp_all add: show_trip_def log_participant_event_frame Let_def
        split: option.splits sum.splits prod.splits)

lemma no_log_files_no_log:
  assumes "participant_log_files st p = []"
  shows "map_of (trip_logs st) (log_filename p) = None"
proof (rule ccontr)
  assume "map_of (trip_logs st) (log_filename p) \<noteq> None"
  then obtain rows where "map_of (trip_logs st) (log_filename p) = Some rows" by blast
  then have "(log_filename p, rows) \<in> set (trip_logs st)" by (rule map_of_SomeD)
  then have "log_filename p \<in> set (listdir_logs st)" by (force simp: listdir_logs_def)
  moreover have "startswith (log_filename p) (p @ ''.csv'')"
    by (simp add: startswith_def log_filename_def)
  ultimately have "log_filename p \<in> set (participant_log_files st p)"
    by (simp add: participant_log_files_def)
  then show False using assms by simp
qed

lemma assign_participant_new:
  assumes "\<not> bot_request p" "participant_log_files st p = []"
  shows "assignments_file (snd (assign_participant p now st)) =
           Some ((case assignments_file st of None \<Rightarrow> [assignments_header] | Some rows \<Rightarrow> rows) @
                 [[p, str_int (int (length (ledger_rows st)) mod 5),
                   str_int (int (length (ledger_rows st)) mod 10), now]])"
    and "trip_logs (snd (assign_participant p now st)) =
           AList.update (log_filename p) [participant_log_header] (trip_logs st)"
    and "switch_files (snd (assign_participant p now st)) = switch_files st"
    and "reflection_files (snd (assign_participant p now st)) = reflection_files st"
    and "fst (assign_participant p now st) = Page (AssignedPage p)"
proof -
  have b: "\<not> (endswith p ''.php'' \<or> endswith p ''.ico'' \<or> endswith p ''.txt'' \<or>
      endswith p ''.xml'' \<or> endswith p ''.js'' \<or> endswith p ''.css'' \<or>
      endswith p ''.html'' \<or> endswith p ''.jsp'' \<or> endswith p ''.asp'' \<or>
      CHR ''/'' \<in> set p \<or>
      lower p \<in> set [''favicon.ico'', ''robots.txt'', ''sitemap.xml'', ''wp-config.php''])"
    using assms(1) unfolding bot_request_iff .
  have n: "map_of (trip_logs st) (log_filename p) = None"
    using assms(2) by (rule no_log_files_no_log)
  have eq: "assign_participant p now st =
     (let ((condition_order_idx, trip_order_idx), st1) = get_next_assignment st;
          st2 = log_assignment p condition_order_idx trip_order_idx now st1;
          st3 = create_participant_log p st2;
          st4 = create_event_log p now st3
      in (Page (AssignedPage p), st4))"
    unfolding assign_participant_def using b assms(2) by (simp only: if_False simp_thms)
  show "assignments_file (snd (assign_participant p now st)) =
           Some ((case assignments_file st of None \<Rightarrow> [assignments_header] | Some rows \<Rightarrow> rows) @
                 [[p, str_int (int (length (ledger_rows st)) mod 5),
                   str_int (int (length (ledger_rows st)) mod 10), now]])"
    unfolding eq
    by (simp add: get_next_assignment_def log_assignment_def create_participant_log_def
          create_event_log_frame Let_def ledger_rows_def split: option.splits)
  show "trip_logs (snd (assign_participant p now st)) =
           AList.update (log_filename p) [participant_log_header] (trip_logs st)"
    unfolding eq using n
    by (simp add: get_next_assignment_def log_assignment_def create_participant_log_def
          create_event_log_frame Let_def split: option.splits)
  show "switch_files (snd (assign_participant p now st)) = switch_files st"
    unfolding eq
    by (simp add: get_next_assignment_def log_assignment_def create_participant_log_def
          create_event_log_frame Let_def split: option.splits)
  show "reflection_files (snd (assign_participant p now st)) = reflection_files st"
    unfolding eq
    by (simp add: get_next_assignment_def log_assignment_def create_participant_log_def
          create_event_log_frame Let_def split: option.splits)
  show "fst (assign_participant p now st) = Page (AssignedPage p)"
    unfolding eq by (simp add: Let_def split: prod.splits)
qed

lemma assign_participant_return_visit:
  assumes "\<not> bot_request p" "participant_log_files st p \<noteq> []"
  shows "assign_participant p now st =
           (Page (WelcomeBackPage p),
            log_participant_event p [] [] ''return_visit'' (EText []) [] now st)"
proof -
  have b: "\<not> (endswith p ''.php'' \<or> endswith p ''.ico'' \<or> endswith p ''.txt'' \<or>
      endswith p ''.xml'' \<or> endswith p ''.js'' \<or> endswith p ''.css'' \<or>
      endswith p ''.html'' \<or> endswith p ''.jsp'' \<or> endswith p ''.asp'' \<or>
      CHR ''/'' \<in> set p \<or>
      lower p \<in> set [''favicon.ico'', ''robots.txt'', ''sitemap.xml'', ''wp-config.php''])"
    using assms(1) unfolding bot_request_iff .
  show ?thesis unfolding assign_participant_def using b assms(2) by (simp only: if_False if_True simp_thms)
qed

lemma ledger_rows_assign_new:
  assumes "ledger_ok st" "\<not> bot_request p" "participant_log_files st p = []"
  shows "ledger_rows (snd (assign_participant p now st)) =
           ledger_rows st @ [[p, str_int (int (length (ledger_rows st)) mod 5),
                              str_int (int (length (ledger_rows st)) mod 10), now]]"
proof (cases "assignments_file st")
  case None
  then show ?thesis
    by (simp add: ledger_rows_def assign_participant_new(1)[OF assms(2,3)] assignments_header_def)
next
  case (Some rows)
  then have "rows \<noteq> []" using assms(1) by (simp add: ledger_ok_def)
  then show ?thesis using Some
    by (simp add: ledger_rows_def assign_participant_new(1)[OF assms(2,3)])
qed

lemma invariant_assign_new:
  assumes inv: "invariant st" and nb: "\<not> bot_request p" and nf: "participant_log_files st p = []"
  shows "invariant (snd (assign_participant p now st))"
proof -
  let ?st' = "snd (assign_participant p now st)"
  let ?new = "[p, str_int (int (length (ledger_rows st)) mod 5),
               str_int (int (length (ledger_rows st)) mod 10), now]"
  have lo: "ledger_ok st" and go: "logs_ok st" and so: "switches_ok st"
    using inv by (simp_all add: invariant_def)
  have L: "ledger_rows ?st' = ledger_rows st @ [?new]"
    using lo nb nf by (rule ledger_rows_assign_new)
  have T: "map_of (trip_logs ?st') = (map_of (trip_logs st))(log_filename p \<mapsto> [participant_log_header])"
    by (simp add: assign_participant_new(2)[OF nb nf] update_conv')
  have S: "switch_files ?st' = switch_files st" using nb nf by (rule assign_participant_new(3))
  have n: "map_of (trip_logs st) (log_filename p) = None" using nf by (rule no_log_files_no_log)
  have fresh: "p \<notin> (\<lambda>row. row ! 0) ` set (ledger_rows st)"
  proof
    assume "p \<in> (\<lambda>row. row ! 0) ` set (ledger_rows st)"
    then obtain i where "i < length (ledger_rows st)" "ledger_rows st ! i ! 0 = p"
      by (auto simp: in_set_conv_nth)
    then have "map_of (trip_logs st) (log_filename p) \<noteq> None"
      using lo by (auto simp: ledger_ok_def)
    then show False using n by simp
  qed
  have l1: "case assignments_file ?st' of None \<Rightarrow> True | Some rows \<Rightarrow> rows \<noteq> []"
    by (simp add: assign_participant_new(1)[OF nb nf])
  have l3: "distinct (map (\<lambda>row. row ! 0) (ledger_rows ?st'))"
    using lo fresh by (simp add: L ledger_ok_def)
  have l2: "length (ledger_rows ?st' ! i) = 4 \<and>
          ledger_rows ?st' ! i ! 1 = str_int (int i mod 5) \<and>
          ledger_rows ?st' ! i ! 2 = str_int (int i mod 10) \<and>
          \<not> bot_request (ledger_rows ?st' ! i ! 0) \<and>
          map_of (trip_logs ?st') (log_filename (ledger_rows ?st' ! i ! 0)) \<noteq> None"
    if i: "i < length (ledger_rows ?st')" for i
  proof (cases "i < length (ledger_rows st)")
    case True
    then have "ledger_rows ?st' ! i = ledger_rows st ! i" by (simp add: L nth_append)
    then show ?thesis using lo True by (simp add: ledger_ok_def T)
  next
    case False
    then have "i = length (ledger_rows st)" using i by (simp add: L)
    then have "ledger_rows ?st' ! i = ?new" by (simp add: L)
    then show ?thesis using nb \<open>i = length (ledger_rows st)\<close> by (simp add: T)
  qed
  have "ledger_ok ?st'"
    unfolding ledger_ok_def using l1 l2 l3 by blast
  moreover have "logs_ok ?st'"
    unfolding logs_ok_def
  proof (intro allI impI)
    fix name rows assume a: "map_of (trip_logs ?st') name = Some rows"
    show "wf_log rows \<and> (\<exists>row \<in> set (ledger_rows ?st'). name = log_filename (row ! 0))"
    proof (cases "name = log_filename p")
      case True
      then have "rows = [participant_log_header]" using a by (simp add: T)
      then show ?thesis using True by (simp add: wf_log_def L)
    next
      case False
      then have "map_of (trip_logs st) name = Some rows" using a by (simp add: T)
      then show ?thesis using go by (auto simp: logs_ok_def L)
    qed
  qed
  moreover have "switches_ok ?st'"
    unfolding switches_ok_def
  proof (intro allI ballI impI)
    fix q row assume a: "row \<in> set (trial_rows ?st' q)" "row ! 6 \<noteq> ''walking''"
    have "q \<noteq> p" using a(1) by (auto simp: trial_rows_def T)
    then have "trial_rows ?st' q = trial_rows st q" by (simp add: trial_rows_def T log_filename_inj)
    then have "map_of (get_condition_switches st q) (''condition_'' @ row ! 2) \<noteq> None"
      using so a by (simp add: switches_ok_def)
    then show "map_of (get_condition_switches ?st' q) (''condition_'' @ row ! 2) \<noteq> None"
      by (simp add: get_condition_switches_def S)
  qed
  ultimately show ?thesis by (simp add: invariant_def)
qed

lemma invariant_assign:
  assumes "invariant st"
  shows "invariant (snd (assign_participant p now st))"
proof (cases "bot_request p")
  case True
  then show ?thesis using assms by (simp add: assign_participant_bot)
next
  case False
  show ?thesis
  proof (cases "participant_log_files st p = []")
    case True
    with assms False show ?thesis by (rule invariant_assign_new)
  next
    case nonempty: False
    show ?thesis using assms
      by (simp add: assign_participant_return_visit[OF False nonempty] invariant_event)
  qed
qed

lemma get_condition_switches_cong:
  "switch_files st' = switch_files st \<Longrightarrow> get_condition_switches st' q = get_condition_switches st q"
  by (simp add: get_condition_switches_def)

lemma track_switch_files_cong:
  "switch_files st1 = switch_files st \<Longrightarrow>
   switch_files (track_first_ride_switch p n c t ch now st1) =
   switch_files (track_first_ride_switch p n c t ch now st)"
  by (simp add: track_first_ride_switch_def Let_def)

lemma log_trip_choice_cases:
  obtains
    (failed) "log_trip_choice p n c w t ch now st = (False, st)"
  | (kept) "fst (log_trip_choice p n c w t ch now st)"
      "trip_logs (snd (log_trip_choice p n c w t ch now st)) = trip_logs st"
      "switch_files (snd (log_trip_choice p n c w t ch now st)) =
         switch_files (track_first_ride_switch p n c t ch now st)"
  | (appended) rows cells where
      "fst (log_trip_choice p n c w t ch now st)"
      "map_of (trip_logs st) (log_filename p) = Some rows"
      "\<forall>row \<in> set (tl rows).
         \<not> (overall_column rows < length row \<and> row ! overall_column rows = str_int n)"
      "reflection_cells (get_trip_reflection_data st p c) = Inr cells"
      "trip_logs (snd (log_trip_choice p n c w t ch now st)) =
         AList.update (log_filename p)
           (rows @ [[p, str_int n, str_int c, str_int w, now, str_int t, ch] @ cells])
           (trip_logs st)"
      "switch_files (snd (log_trip_choice p n c w t ch now st)) =
         switch_files (track_first_ride_switch p n c t ch now st)"
proof (cases "map_of (trip_logs st) (log_filename p)")
  case None
  then show ?thesis
    by (intro kept) (simp_all add: log_trip_choice_def track_first_ride_switch_frame)
next
  case (Some rows)
  show ?thesis
  proof (cases "\<exists>row \<in> set (tl rows).
                  overall_column rows < length row \<and> row ! overall_column rows = str_int n")
    case True
    then show ?thesis using Some
      by (intro kept) (simp_all add: log_trip_choice_def Let_def track_first_ride_switch_frame)
  next
    case False
    show ?thesis
    proof (cases "reflection_cells (get_trip_reflection_data st p c)")
      case (Inl e)
      then show ?thesis using Some False by (intro failed) (auto simp add: log_trip_choice_def Let_def)
    next
      case (Inr cells)
      have eq: "log_trip_choice p n c w t ch now st =
         (True, track_first_ride_switch p n c t ch now
                  (st\<lparr>trip_logs := AList.update (log_filename p)
                     (rows @ [[p, str_int n, str_int c, str_int w, now, str_int t, ch] @ cells])
                     (trip_logs st)\<rparr>))"
        using Some False Inr by (auto simp add: log_trip_choice_def Let_def)
      show ?thesis
      proof (rule appended[of rows cells])
        show "fst (log_trip_choice p n c w t ch now st)" by (simp add: eq)
        show "map_of (trip_logs st) (log_filename p) = Some rows" by (rule Some)
        show "\<forall>row \<in> set (tl rows).
           \<not> (overall_column rows < length row \<and> row ! overall_column rows = str_int n)"
          using False by blast
        show "reflection_cells (get_trip_reflection_data st p c) = Inr cells" by (rule Inr)
        show "trip_logs (snd (log_trip_choice p n c w t ch now st)) =
           AList.update (log_filename p)
             (rows @ [[p, str_int n, str_int c, str_int w, now, str_int t, ch] @ cells])
             (trip_logs st)"
          by (simp add: eq track_first_ride_switch_frame)
        show "switch_files (snd (log_trip_choice p n c w t ch now st)) =
           switch_files (track_first_ride_switch p n c t ch now st)"
          unfolding eq snd_conv by (rule track_switch_files_cong) simp
      qed
    qed
  qed
qed

lemma ledger_ok_mono:
  assumes "ledger_ok st" "assignments_file st' = assignments_file st"
      and "\<And>name. map_of (trip_logs st) name \<noteq> None \<Longrightarrow> map_of (trip_logs st') name \<noteq> None"
  shows "ledger_ok st'"
  using assms by (simp add: ledger_ok_def ledger_rows_def)

lemma switch_record_kept_by_track:
  assumes "switch_files st' = switch_files (track_first_ride_switch p n c t ch now st)"
      and "map_of (get_condition_switches st q) key \<noteq> None"
  shows "map_of (get_condition_switches st' q) key \<noteq> None"
proof -
  obtain r where "map_of (get_condition_switches st q) key = Some r" using assms(2) by blast
  then have "map_of (get_condition_switches (track_first_ride_switch p n c t ch now st) q) key = Some r"
    by (rule track_keeps_record)
  then show ?thesis by (simp add: get_condition_switches_cong[OF assms(1)])
qed

lemma invariant_log_trip_choice:
  assumes inv: "invariant st"
  shows "invariant (snd (log_trip_choice p n c w t ch now st))"
proof -
  let ?st' = "snd (log_trip_choice p n c w t ch now st)"
  have lo: "ledger_ok st" and go: "logs_ok st" and so: "switches_ok st"
    using inv by (simp_all add: invariant_def)
  have A: "assignments_file ?st' = assignments_file st" by (rule log_trip_choice_frame)
  show ?thesis
  proof (cases p n c w t ch now st rule: log_trip_choice_cases)
    case failed
    then show ?thesis using inv by simp
  next
    case kept
    have "ledger_ok ?st'" using lo A by (rule ledger_ok_mono) (simp add: kept(2))
    moreover have "logs_ok ?st'" using go by (simp add: logs_ok_def kept(2) ledger_rows_def A)
    moreover have "switches_ok ?st'"
      unfolding switches_ok_def
    proof (intro allI ballI impI)
      fix q row assume a: "row \<in> set (trial_rows ?st' q)" "row ! 6 \<noteq> ''walking''"
      then have "map_of (get_condition_switches st q) (''condition_'' @ row ! 2) \<noteq> None"
        using so by (simp add: switches_ok_def trial_rows_def kept(2))
      then show "map_of (get_condition_switches ?st' q) (''condition_'' @ row ! 2) \<noteq> None"
        using kept(3) by (rule switch_record_kept_by_track[rotated])
    qed
    ultimately show ?thesis by (simp add: invariant_def)
  next
    case (appended rows cells)
    let ?new = "[p, str_int n, str_int c, str_int w, now, str_int t, ch] @ cells"
    have T: "map_of (trip_logs ?st') = (map_of (trip_logs st))(log_filename p \<mapsto> rows @ [?new])"
      by (simp add: appended(5) update_conv')
    have wf: "wf_log rows" using go appended(2) by (simp add: logs_ok_def)
    have len: "length cells = 4" using appended(4) by (rule length_reflection_cells)
    have "ledger_ok ?st'" using lo A by (rule ledger_ok_mono) (simp add: T)
    moreover have "logs_ok ?st'"
      unfolding logs_ok_def
    proof (intro allI impI)
      fix name rs assume a: "map_of (trip_logs ?st') name = Some rs"
      show "wf_log rs \<and> (\<exists>row \<in> set (ledger_rows ?st'). name = log_filename (row ! 0))"
      proof (cases "name = log_filename p")
        case True
        then have "rs = rows @ [?new]" using a by (simp add: T)
        moreover have "wf_log (rows @ [?new])" using wf appended(3) len by (rule wf_log_append)
        moreover have "\<exists>row \<in> set (ledger_rows st). name = log_filename (row ! 0)"
          using go appended(2) True by (simp add: logs_ok_def)
        ultimately show ?thesis by (simp add: ledger_rows_def A)
      next
        case False
        then have "map_of (trip_logs st) name = Some rs" using a by (simp add: T)
        then show ?thesis using go by (simp add: logs_ok_def ledger_rows_def A)
      qed
    qed
    moreover have "switches_ok ?st'"
      unfolding switches_ok_def
    proof (intro allI ballI impI)
      fix q row assume a: "row \<in> set (trial_rows ?st' q)" "row ! 6 \<noteq> ''walking''"
      show "map_of (get_condition_switches ?st' q) (''condition_'' @ row ! 2) \<noteq> None"
      proof (cases "row \<in> set (trial_rows st q)")
        case True
        then have "map_of (get_condition_switches st q) (''condition_'' @ row ! 2) \<noteq> None"
          using so a(2) by (simp add: switches_ok_def)
        then show ?thesis using appended(6) by (rule switch_record_kept_by_track[rotated])
      next
        case False
        have "rows \<noteq> []" using wf by (simp add: wf_log_def)
        then have "q = p \<and> row = ?new"
          using a(1) False appended(2)
          by (auto simp: trial_rows_def T log_filename_inj split: if_splits)
        then have "q = p" "row ! 2 = str_int c" "ch \<noteq> ''walking''" using a(2) by simp_all
        then show ?thesis
          using track_creates_record[of ch p n c t now st]
          by (simp add: get_condition_switches_cong[OF appended(6)])
      qed
    qed
    ultimately show ?thesis by (simp add: invariant_def)
  qed
qed

lemma invariant_likert_events:
  "invariant (foldl (\<lambda>s (question, response).
                log_participant_event p a b (f question) (g response) c now s) st qs) =
   invariant st"
proof (induction qs arbitrary: st)
  case Nil
  show ?case by simp
next
  case (Cons q qs)
  show ?case by (cases q) (simp add: Cons.IH invariant_event)
qed

lemma invariant_log_event:
  assumes "invariant st"
  shows "invariant (snd (log_event p event_type data now st))"
proof (cases "participant_log_files st p = []")
  case True
  then show ?thesis using assms by (simp add: log_event_def)
next
  case False
  show ?thesis
  proof (cases "event_type = ''trip_choice''")
    case True
    have "invariant (snd (log_trip_choice p (ep_overall_trip_number data) (ep_condition data)
             (ep_trip_within_condition data) (ep_trip_id data) (ep_data data) now st))"
      using assms by (rule invariant_log_trip_choice)
    then show ?thesis using False True
      by (auto simp add: log_event_def Let_def invariant_event split: prod.splits)
  next
    case other: False
    show ?thesis
    proof (cases "event_type = ''condition_likert''")
      case True
      then show ?thesis using False other assms
        by (simp add: log_event_def invariant_likert_events)
    next
      case False
      then show ?thesis using \<open>participant_log_files st p \<noteq> []\<close> other assms
        by (simp add: log_event_def invariant_event)
    qed
  qed
qed

lemma complete_reflection_state:
  "\<exists>st2. snd (complete_reflection p c data now st) = update_csv_with_reflection_data p c st2 \<and>
         assignments_file st2 = assignments_file st \<and> trip_logs st2 = trip_logs st \<and>
         switch_files st2 = switch_files st \<and>
         map_of (reflection_files st2) = (map_of (reflection_files st))
           (reflection_filename p c \<mapsto>
              (case data of
                 None \<Rightarrow> SwitchBased None None
               | Some d \<Rightarrow> if rp_reflection_type d = Some ''walking_only''
                           then WalkingOnly (rp_walking_reason d)
                           else SwitchBased (rp_rationale d) (rp_trip_likert_responses d)))"
proof -
  let ?r = "case data of
              None \<Rightarrow> SwitchBased None None
            | Some d \<Rightarrow> if rp_reflection_type d = Some ''walking_only''
                        then WalkingOnly (rp_walking_reason d)
                        else SwitchBased (rp_rationale d) (rp_trip_likert_responses d)"
  let ?st1 = "case data of
                None \<Rightarrow> st
              | Some d \<Rightarrow> if rp_reflection_type d = Some ''walking_only''
                          then log_participant_event p [] (str_int c) ''walking_only_reflection''
                                 (EWalkingReason (rp_walking_reason d)) [] now st
                          else st"
  let ?st2 = "?st1\<lparr>reflection_files :=
                      AList.update (reflection_filename p c) ?r (reflection_files ?st1)\<rparr>"
  have 1: "snd (complete_reflection p c data now st) = update_csv_with_reflection_data p c ?st2"
    by (cases data) (simp_all add: complete_reflection_def Let_def)
  have 2: "assignments_file ?st2 = assignments_file st" "trip_logs ?st2 = trip_logs st"
          "switch_files ?st2 = switch_files st"
    by (cases data; simp add: log_participant_event_frame)+
  have 3: "map_of (reflection_files ?st2) = (map_of (reflection_files st))(reflection_filename p c \<mapsto> ?r)"
    by (cases data) (simp_all add: log_participant_event_frame update_conv')
  show ?thesis using 1 2 3 by blast
qed

lemma invariant_update_csv:
  assumes inv: "invariant st"
  shows "invariant (update_csv_with_reflection_data p c st)"
proof -
  let ?st' = "update_csv_with_reflection_data p c st"
  have lo: "ledger_ok st" and go: "logs_ok st" and so: "switches_ok st"
    using inv by (simp_all add: invariant_def)
  have A: "assignments_file ?st' = assignments_file st" by (rule update_csv_frame)
  have S: "switch_files ?st' = switch_files st" by (rule update_csv_frame)
  have wf: "\<forall>name rows. map_of (trip_logs st) name = Some rows \<longrightarrow> wf_log rows"
    using go by (simp add: logs_ok_def)
  from update_csv_logs[OF wf, of p c]
  show ?thesis
  proof (elim disjE exE conjE)
    assume "trip_logs ?st' = trip_logs st"
    then have "invariant ?st' = invariant st" using A S by (intro invariant_cong)
    then show ?thesis using inv by simp
  next
    fix rows
    let ?rows' = "hd rows # map (update_row 2 7 10 c (get_trip_reflection_data st p c)) (tl rows)"
    assume r: "map_of (trip_logs st) (log_filename p) = Some rows"
       and u: "trip_logs ?st' = AList.update (log_filename p) ?rows' (trip_logs st)"
    have T: "map_of (trip_logs ?st') = (map_of (trip_logs st))(log_filename p \<mapsto> ?rows')"
      by (simp add: u update_conv')
    have wfr: "wf_log rows" using wf r by blast
    have "ledger_ok ?st'" using lo A by (rule ledger_ok_mono) (simp add: T)
    moreover have "logs_ok ?st'"
      unfolding logs_ok_def
    proof (intro allI impI)
      fix name rs assume a: "map_of (trip_logs ?st') name = Some rs"
      show "wf_log rs \<and> (\<exists>row \<in> set (ledger_rows ?st'). name = log_filename (row ! 0))"
      proof (cases "name = log_filename p")
        case True
        then have "rs = ?rows'" using a by (simp add: T)
        moreover have "wf_log ?rows'" using wfr by (rule wf_log_update_rows)
        moreover have "\<exists>row \<in> set (ledger_rows st). name = log_filename (row ! 0)"
          using go r True by (simp add: logs_ok_def)
        ultimately show ?thesis by (simp add: ledger_rows_def A)
      next
        case False
        then have "map_of (trip_logs st) name = Some rs" using a by (simp add: T)
        then show ?thesis using go by (simp add: logs_ok_def ledger_rows_def A)
      qed
    qed
    moreover have "switches_ok ?st'"
      unfolding switches_ok_def
    proof (intro allI ballI impI)
      fix q row assume a: "row \<in> set (trial_rows ?st' q)" "row ! 6 \<noteq> ''walking''"
      have "\<exists>old \<in> set (trial_rows st q). old ! 6 = row ! 6 \<and> old ! 2 = row ! 2"
      proof (cases "q = p")
        case True
        then have "row \<in> update_row 2 7 10 c (get_trip_reflection_data st p c) ` set (tl rows)"
          using a(1) by (simp add: trial_rows_def T)
        then obtain old where "old \<in> set (tl rows)"
          "row = update_row 2 7 10 c (get_trip_reflection_data st p c) old" by blast
        then show ?thesis using True r
          by (auto simp: trial_rows_def update_row_other_cells)
      next
        case False
        then show ?thesis using a(1) by (auto simp: trial_rows_def T log_filename_inj)
      qed
      then obtain old where o: "old \<in> set (trial_rows st q)" "old ! 6 = row ! 6" "old ! 2 = row ! 2"
        by blast
      have "old ! 6 \<noteq> ''walking''" using a(2) o(2) by simp
      then have "map_of (get_condition_switches st q) (''condition_'' @ old ! 2) \<noteq> None"
        using so o(1) unfolding switches_ok_def by blast
      then show "map_of (get_condition_switches ?st' q) (''condition_'' @ row ! 2) \<noteq> None"
        unfolding o(3) get_condition_switches_cong[OF S] .
    qed
    ultimately show ?thesis by (simp add: invariant_def)
  qed
qed

lemma invariant_complete_reflection:
  assumes "invariant st"
  shows "invariant (snd (complete_reflection p c data now st))"
proof -
  obtain st2 where st2: "snd (complete_reflection p c data now st) =
        update_csv_with_reflection_data p c st2"
      "assignments_file st2 = assignments_file st" "trip_logs st2 = trip_logs st"
      "switch_files st2 = switch_files st"
    using complete_reflection_state[of p c data now st] by blast
  have "invariant st2" using assms invariant_cong[OF st2(2,3,4)] by simp
  then show ?thesis unfolding st2(1) by (rule invariant_update_csv)
qed

lemma invariant_step: "step st st' \<Longrightarrow> invariant st \<Longrightarrow> invariant st'"
  by (induction rule: step.induct)
     (simp_all add: invariant_assign invariant_show_trip invariant_log_event
        invariant_complete_reflection invariant_event)

lemma reachable_invariant: "reachable st \<Longrightarrow> invariant st"
  unfolding reachable_def
  by (induction rule: rtranclp_induct) (auto intro: invariant_initial invariant_step)

section \<open>Looking a participant up in the ledger\<close>

lemma find_assignment_absent:
  "p \<notin> (\<lambda>row. row ! 0) ` set rows \<Longrightarrow> find_assignment rows p = Inr None"
  by (induction rows) auto


lemma get_participant_assignment_ledger:
  "get_participant_assignment st p = find_assignment (ledger_rows st) p"
  by (simp add: get_participant_assignment_def ledger_rows_def split: option.splits)


lemma ledger_participant_has_log:
  assumes "ledger_ok st" "p \<in> (\<lambda>row. row ! 0) ` set (ledger_rows st)"
  shows "map_of (trip_logs st) (log_filename p) \<noteq> None" and "\<not> bot_request p"
proof -
  obtain i where i: "i < length (ledger_rows st)" "ledger_rows st ! i ! 0 = p"
    using assms(2) by (auto simp: in_set_conv_nth)
  show "map_of (trip_logs st) (log_filename p) \<noteq> None"
    using assms(1) i unfolding ledger_ok_def by blast
  show "\<not> bot_request p" using assms(1) i unfolding ledger_ok_def by blast
qed

lemma log_owner_in_ledger:
  assumes "logs_ok st" "map_of (trip_logs st) (log_filename p) \<noteq> None"
  shows "p \<in> (\<lambda>row. row ! 0) ` set (ledger_rows st)"
proof -
  obtain rows where "map_of (trip_logs st) (log_filename p) = Some rows" using assms(2) by blast
  then obtain row where "row \<in> set (ledger_rows st)" "log_filename p = log_filename (row ! 0)"
    using assms(1) unfolding logs_ok_def by blast
  then show ?thesis by (auto simp: log_filename_inj)
qed

lemma bot_never_assigned:
  assumes "reachable st" "bot_request p"
  shows "get_participant_assignment st p = Inr None"
    and "map_of (trip_logs st) (log_filename p) = None"
proof -
  have inv: "ledger_ok st" "logs_ok st"
    using reachable_invariant[OF assms(1)] by (simp_all add: invariant_def)
  have notin: "p \<notin> (\<lambda>row. row ! 0) ` set (ledger_rows st)"
    using ledger_participant_has_log(2)[OF inv(1)] assms(2) by blast
  then show "get_participant_assignment st p = Inr None"
    by (simp add: get_participant_assignment_ledger find_assignment_absent)
  show "map_of (trip_logs st) (log_filename p) = None"
    using log_owner_in_ledger[OF inv(2)] notin by blast
qed

text \<open>
  C10. A participant id that ends in one of \<open>.php .ico .txt .xml .js .css .html .jsp .asp\<close>,
  contains a slash, or is \<open>favicon.ico\<close>, \<open>robots.txt\<close>, \<open>sitemap.xml\<close> or
  \<open>wp-config.php\<close> in any mix of upper and lower case is answered "Not found" by
  \<open>assign_participant\<close>, and no file changes: no ledger record, no trial log, no
  switch or reflection record, no event-log entry. In every reachable state such an id has
  no assignment and no trial log.
\<close>

theorem bot_requests_rejected:
  assumes "bot_request participant_id"
  shows "assign_participant participant_id now st = (NotFound ''Not found'', st) \<and>
         (reachable st \<longrightarrow>
            get_participant_assignment st participant_id = Inr None \<and>
            map_of (trip_logs st) (log_filename participant_id) = None)"
  using assms by (simp add: assign_participant_bot bot_never_assigned)

section \<open>Allocation\<close>





section \<open>Facts about the sample states\<close>

lemma str_int_digit:
  "str_int 0 = ''0''" "str_int 1 = ''1''" "str_int 2 = ''2''" "str_int 3 = ''3''"
  "str_int 4 = ''4''" "str_int 5 = ''5''" "str_int 6 = ''6''" "str_int 7 = ''7''"
  "str_int 8 = ''8''" "str_int 9 = ''9''"
  by (simp_all add: str_int_def digits.simps digit_chars_def)


lemma bot_wp_login: "bot_request ''wp-login.php''"
  by (simp add: bot_request_def suffix_to_prefix)

lemma assign_P1: "assign_participant ''P1'' ''t0'' initial_state = (Page (AssignedPage ''P1''), st_P1)"
  by (simp add: assign_participant_def endswith_def suffix_to_prefix lower_def lower_char_def
        participant_log_files_def listdir_logs_def initial_state_def get_next_assignment_def
        log_assignment_def create_participant_log_def create_event_log_def log_filename_def
        event_log_filename_def str_int_digit Let_def st_P1_def)

lemma reachable_initial: "reachable initial_state"
  by (simp add: reachable_def)

lemma reachable_step: "reachable st \<Longrightarrow> step st st' \<Longrightarrow> reachable st'"
  unfolding reachable_def by (rule rtranclp.rtrancl_into_rtrancl)

lemma reachable_P1: "reachable st_P1"
proof -
  have "step initial_state (snd (assign_participant ''P1'' ''t0'' initial_state))"
    by (rule step.s_assign)
  then show ?thesis using reachable_initial by (simp add: assign_P1 reachable_step)
qed

theorem bot_requests_rejected_witness:
  "bot_request ''wp-login.php'' \<and> reachable st_P1 \<and>
   assign_participant ''wp-login.php'' ''t1'' st_P1 = (NotFound ''Not found'', st_P1) \<and>
   get_participant_assignment st_P1 ''wp-login.php'' = Inr None \<and>
   map_of (trip_logs st_P1) (log_filename ''wp-login.php'') = None"
  using bot_requests_rejected[OF bot_wp_login, of "''t1''" st_P1] bot_wp_login reachable_P1
  by simp

lemma lookup_P1: "get_participant_assignment st_P1 ''P1'' = Inr (Some (0, 0))"
  by (simp add: get_participant_assignment_def st_P1_def py_int_0)



section \<open>The next trial number\<close>

lemma foldl_max_Max: "foldl max (m::int) xs = Max (insert m (set xs))"
proof (induction xs arbitrary: m)
  case Nil
  show ?case by simp
next
  case (Cons x xs)
  have "Max (insert (max m x) (set xs)) = Max (insert m (insert x (set xs)))"
    by (cases "set xs = {}") (simp_all add: max.assoc Max_insert)
  then show ?case by (simp add: Cons.IH)
qed

lemma foldl_scan_map_filter:
  "foldl (\<lambda>m row. if i < length row then (case g (row ! i) of None \<Rightarrow> m | Some v \<Rightarrow> max m v) else m)
         (m0::int) rows =
   foldl max m0 (List.map_filter (\<lambda>row. if i < length row then g (row ! i) else None) rows)"
  by (induction rows arbitrary: m0) (auto simp: List.map_filter_simps split: option.splits)

lemma max_overall_recorded: "max_overall rows = Max (insert (- 1) (set (recorded_numbers rows)))"
  by (simp add: max_overall_def recorded_numbers_def Let_def foldl_scan_map_filter foldl_max_Max)


section \<open>Serving a trial\<close>




lemma log_files_P1: "participant_log_files st_P1 ''P1'' = [''P1.csv'']"
  by (simp add: participant_log_files_def listdir_logs_def st_P1_def startswith_def)

lemma st_P1_files:
  "trip_logs st_P1 = [(''P1.csv'', [participant_log_header])]"
  "switch_files st_P1 = []" "reflection_files st_P1 = []"
  by (simp_all add: st_P1_def)

lemma st_P1_walked_files:
  "trip_logs st_P1_walked = [(''P1.csv'', [participant_log_header, row_walk_0])]"
  "switch_files st_P1_walked = []"
  "reflection_files st_P1_walked = []"
  "assignments_file st_P1_walked = assignments_file st_P1"
  by (simp_all add: st_P1_walked_def log_event_def log_files_P1 walk_0_def Let_def
        log_participant_event_frame log_trip_choice_def st_P1_files log_filename_def
        overall_column_header get_trip_reflection_data_def reflection_cells_def
        track_first_ride_switch_def str_int_digit row_walk_0_def split: prod.splits)

lemma log_files_P1_walked: "participant_log_files st_P1_walked ''P1'' = [''P1.csv'']"
  by (simp add: participant_log_files_def listdir_logs_def st_P1_walked_files startswith_def)




lemma recorded_P1_walked: "recorded_numbers [participant_log_header, row_walk_0] = [0]"
  by (simp add: recorded_numbers_def overall_column_header row_walk_0_def
        List.map_filter_simps py_int_0)





section \<open>The reflection check\<close>








text \<open>Before any trial is recorded the check answers "No trips found.".\<close>

lemma check_switch_no_trips: "check_switch ''P1'' st_P1 = NotFound ''No trips found.''"
  by (simp add: check_switch_def log_files_P1 trip_count_of_def st_P1_files log_filename_def
        max_overall_def overall_column_header)

section \<open>Recorded trial numbers\<close>

























section \<open>The first-switch record and the trial log\<close>




















section \<open>When a reflection is offered and when it is stored\<close>

lemma complete_reflection_done:
  "reflection_done (snd (complete_reflection p c data now st)) p c"
proof -
  obtain st2 where st2: "snd (complete_reflection p c data now st) =
        update_csv_with_reflection_data p c st2"
      "map_of (reflection_files st2) (reflection_filename p c) \<noteq> None"
    using complete_reflection_state[of p c data now st] by auto
  show ?thesis unfolding reflection_done_def st2(1) update_csv_frame using st2(2) .
qed

lemma first_unreflected_Some:
  "first_unreflected st p order bs = Inr (Some c) \<Longrightarrow>
   \<exists>b \<in> set bs. py_index order (int b) = Some c \<and> \<not> reflection_done st p c"
  by (induction bs) (auto simp: reflection_done_def split: option.splits if_splits)

lemma max_overall_recorded_or_none:
  "max_overall rows = - 1 \<or> max_overall rows \<in> set (recorded_numbers rows)"
proof -
  have "Max (insert (- 1) (set (recorded_numbers rows))) \<in> insert (- 1) (set (recorded_numbers rows))"
    by (intro Max_in) simp_all
  then show ?thesis by (simp add: max_overall_recorded)
qed

lemma trip_count_recorded:
  assumes "trip_count_of st p \<noteq> 0"
  shows "trip_count_of st p - 1 \<in> set (trial_numbers st p)"
proof (cases "map_of (trip_logs st) (log_filename p)")
  case None
  then show ?thesis using assms by (simp add: trip_count_of_def)
next
  case (Some rows)
  then have "0 \<le> max_overall rows" "trip_count_of st p = max_overall rows + 1"
    using assms by (auto simp: trip_count_of_def Let_def split: if_splits)
  then show ?thesis using max_overall_recorded_or_none[of rows] Some
    by (auto simp: trial_numbers_def)
qed

lemma check_switch_reflection:
  assumes "check_switch p st = Redirect (TripReflectionRoute p c)"
  shows "\<exists>coi toi order b.
           get_participant_assignment st p = Inr (Some (coi, toi)) \<and>
           py_index CONDITION_ORDER_SEQUENCES coi = Some order \<and>
           py_index order b = Some c \<and> 0 \<le> b \<and> b \<le> (trip_count_of st p - 1) div 10 \<and>
           \<not> reflection_done st p c \<and>
           (\<exists>n \<in> set (trial_numbers st p). 10 * b \<le> n)"
proof -
  let ?tc = "trip_count_of st p"
  let ?cb = "(?tc - 1) div 10"
  have tc0: "?tc \<noteq> 0" using assms by (auto simp: check_switch_def Let_def split: if_splits)
  have "0 \<le> ?tc" by (auto simp: trip_count_of_def Let_def split: option.splits)
  then have cb0: "0 \<le> ?cb" using tc0 by simp
  obtain coi toi where a: "get_participant_assignment st p = Inr (Some (coi, toi))"
    using assms tc0
    by (auto simp: check_switch_def Let_def split: if_splits sum.splits option.splits)
  obtain order where o: "py_index CONDITION_ORDER_SEQUENCES coi = Some order"
    using assms tc0 a
    by (auto simp: check_switch_def Let_def split: if_splits option.splits)
  obtain cc where cc: "py_index order ?cb = Some cc"
    using assms tc0 a o
    by (auto simp: check_switch_def Let_def split: if_splits option.splits)
  have rec: "?tc - 1 \<in> set (trial_numbers st p)" using tc0 by (rule trip_count_recorded)
  have "\<exists>b. py_index order b = Some c \<and> 0 \<le> b \<and> b \<le> ?cb \<and> \<not> reflection_done st p c"
  proof (cases "first_unreflected st p order [0 ..< nat (?cb + 1)]")
    case (Inl e)
    then show ?thesis using assms tc0 a o cc
      by (auto simp: check_switch_def Let_def split: if_splits)
  next
    case (Inr found)
    show ?thesis
    proof (cases found)
      case (Some cond)
      then have "cond = c" using assms tc0 a o cc Inr
        by (auto simp: check_switch_def Let_def split: if_splits)
      then obtain b where "b \<in> set [0 ..< nat (?cb + 1)]" "py_index order (int b) = Some c"
          "\<not> reflection_done st p c"
        using first_unreflected_Some[of st p order _ c] Inr Some by blast
      moreover from this cb0 have "0 \<le> int b \<and> int b \<le> ?cb" by auto
      ultimately show ?thesis by blast
    next
      case None
      then have "cc = c \<and> \<not> reflection_done st p c" using assms tc0 a o cc Inr
        by (auto simp: check_switch_def Let_def reflection_done_def split: if_splits)
      then show ?thesis using cc cb0 by blast
    qed
  qed
  then obtain b where b: "py_index order b = Some c" "0 \<le> b" "b \<le> ?cb" "\<not> reflection_done st p c"
    by blast
  have "10 * b \<le> ?tc - 1" using b(3) by simp
  then show ?thesis using a o b rec by blast
qed

text \<open>
  C8, as the code has it. A reflection submitted for (P, C) is stored whatever the trial
  log holds: after \<open>complete_reflection\<close> the ReflectionRecord exists. What depends on
  the recorded trials is the routing: \<open>check_switch\<close> redirects to the reflection of a
  condition only if it is the condition of a block \<open>b\<close> of the participant's order with
  \<open>b \<le> (trialCount - 1) div 10\<close>, no ReflectionRecord exists for it yet, and some
  recorded trial number is at least \<open>10 * b\<close>.
\<close>

theorem reflection_stored_unconditionally:
  "reflection_done (snd (complete_reflection participant_id condition data now st))
     participant_id condition \<and>
   (check_switch participant_id st = Redirect (TripReflectionRoute participant_id c) \<longrightarrow>
      (\<exists>coi toi order b.
         get_participant_assignment st participant_id = Inr (Some (coi, toi)) \<and>
         py_index CONDITION_ORDER_SEQUENCES coi = Some order \<and>
         py_index order b = Some c \<and> 0 \<le> b \<and>
         b \<le> (trip_count_of st participant_id - 1) div 10 \<and>
         \<not> reflection_done st participant_id c \<and>
         (\<exists>n \<in> set (trial_numbers st participant_id). 10 * b \<le> n)))"
  using complete_reflection_done check_switch_reflection by blast

lemma lookup_P1_walked: "get_participant_assignment st_P1_walked ''P1'' = Inr (Some (0, 0))"
  using lookup_P1 by (simp add: get_participant_assignment_def st_P1_walked_files)

lemma check_switch_P1_walked:
  "check_switch ''P1'' st_P1_walked = Redirect (TripReflectionRoute ''P1'' 0)"
proof -
  have tc: "trip_count_of st_P1_walked ''P1'' = 1"
    by (simp add: trip_count_of_def st_P1_walked_files log_filename_def max_overall_recorded
          recorded_P1_walked)
  show ?thesis
    by (simp add: check_switch_def log_files_P1_walked tc lookup_P1_walked py_index_def
          CONDITION_ORDER_SEQUENCES_def st_P1_walked_files)
qed

theorem reflection_stored_unconditionally_witness:
  "check_switch ''P1'' st_P1_walked = Redirect (TripReflectionRoute ''P1'' 0) \<and>
   \<not> reflection_done st_P1_walked ''P1'' 0 \<and>
   reflection_done (snd (complete_reflection ''P1'' 0 (Some walking_payload) ''t2'' st_P1_walked))
     ''P1'' 0"
  using reflection_stored_unconditionally[of "''P1''" 0 "Some walking_payload" "''t2''"
          st_P1_walked 0]
        check_switch_P1_walked
  by blast

text \<open>
  A reflection for condition 0 submitted by \<open>P1\<close> right after the assignment: the
  ReflectionRecord exists and the trial log has no TrialRecord at all.
\<close>

theorem reflection_before_trials_counterexample:
  "reachable (snd (complete_reflection ''P1'' 0 (Some walking_payload) ''t1'' st_P1)) \<and>
   reflection_done (snd (complete_reflection ''P1'' 0 (Some walking_payload) ''t1'' st_P1)) ''P1'' 0 \<and>
   condition_records (snd (complete_reflection ''P1'' 0 (Some walking_payload) ''t1'' st_P1)) ''P1'' 0 = [] \<and>
   length (condition_records (snd (complete_reflection ''P1'' 0 (Some walking_payload) ''t1'' st_P1))
             ''P1'' 0) \<noteq> 10"
proof -
  let ?st = "snd (complete_reflection ''P1'' 0 (Some walking_payload) ''t1'' st_P1)"
  have r: "reachable ?st" using reachable_P1 by (rule reachable_step) (rule step.s_reflect)
  have "trip_logs ?st = trip_logs st_P1"
    by (simp add: complete_reflection_def walking_payload_def Let_def
          update_csv_with_reflection_data_def log_participant_event_frame st_P1_files
          log_filename_def)
  then have "condition_records ?st ''P1'' 0 = []"
    by (simp add: condition_records_def trial_rows_def st_P1_files log_filename_def)
  then show ?thesis using r complete_reflection_done by simp
qed

section \<open>The merge of a reflection into the trial log\<close>











text \<open>
  When a switch-based payload carries no Likert answers, only the rationale column of the
  records is written: the handler stops at the missing dictionary.
\<close>

lemma update_row_no_likert:
  "length row = 11 \<Longrightarrow> py_int (row ! 2) = Some c \<Longrightarrow>
   update_row 2 7 10 c (Some (SwitchBased rationale None)) row = row[7 := cell_of rationale]"
  by (simp add: update_row_def)

section \<open>The subject of a reflection\<close>
















end
